theory Spec2Isabelle
  imports Complex_Main "HOL-Library.Char_ord" "HOL-Library.List_Lexorder" "HOL-Library.Sublist"
    "HOL-Library.AList" "HOL-Library.Multiset"
begin

section \<open>Go standard-library string functions used by the server\<close>

text \<open>
  Go strings are byte sequences; they are modelled as \<^typ>\<open>string\<close>.
  \<open>strings.Index s sep\<close> is the byte offset of the leftmost occurrence of \<open>sep\<close>
  in \<open>s\<close>; Go returns \<open>-1\<close> when there is none, the model returns \<open>None\<close>.
\<close>

fun Index :: "string \<Rightarrow> string \<Rightarrow> nat option" where
  "Index [] sep = (if sep = [] then Some 0 else None)"
| "Index (c # cs) sep =
     (if prefix sep (c # cs) then Some 0 else map_option Suc (Index cs sep))"

text \<open>
  \<open>strings.Split s sep\<close> for a non-empty separator: the substrings between the
  successive leftmost non-overlapping occurrences of \<open>sep\<close>. The result always has at
  least one element; \<open>Split '''' sep = ['''']\<close>. The accumulator \<open>acc\<close> holds the
  bytes of the current piece in reverse. The server only ever splits on the
  non-empty separators \<open>'' ''\<close>, \<open>''KEY''\<close>, \<open>''/''\<close>, \<open>''.''\<close> and \<open>'';''\<close>; for an empty
  separator Go explodes the string into characters, which is written out too.
\<close>

function splitAcc :: "string \<Rightarrow> string \<Rightarrow> string \<Rightarrow> string list" where
  "splitAcc sep acc [] = [rev acc]"
| "splitAcc sep acc (c # cs) =
     (if sep \<noteq> [] \<and> prefix sep (c # cs)
      then rev acc # splitAcc sep [] (drop (length sep) (c # cs))
      else splitAcc sep (c # acc) cs)"
  by pat_completeness auto
termination
  by (relation "measure (\<lambda>(sep, acc, s). length s)") auto

definition Split :: "string \<Rightarrow> string \<Rightarrow> string list" where
  "Split s sep = (if sep = [] then map (\<lambda>c. [c]) s else splitAcc sep [] s)"

text \<open>
  \<open>strings.SplitAfterN s sep 2\<close> for a non-empty separator: when \<open>sep\<close> occurs in
  \<open>s\<close>, the two pieces are \<open>s\<close> up to and including the leftmost occurrence and the
  rest; otherwise the single piece \<open>s\<close>.
\<close>

definition SplitAfterN2 :: "string \<Rightarrow> string \<Rightarrow> string list" where
  "SplitAfterN2 s sep =
     (case Index s sep of
        None \<Rightarrow> [s]
      | Some i \<Rightarrow> [take (i + length sep) s, drop (i + length sep) s])"

definition HasPrefix :: "string \<Rightarrow> string \<Rightarrow> bool" where
  "HasPrefix s p = prefix p s"

definition HasSuffix :: "string \<Rightarrow> string \<Rightarrow> bool" where
  "HasSuffix s p = suffix p s"

text \<open>\<open>strings.Join\<close>.\<close>

fun Join :: "string list \<Rightarrow> string \<Rightarrow> string" where
  "Join [] sep = []"
| "Join [x] sep = x"
| "Join (x # y # ys) sep = x @ sep @ Join (y # ys) sep"

text \<open>
  \<open>strings.ToUpper\<close> on ASCII letters. HTTP verbs are ASCII; bytes outside
  \<open>a..z\<close> are left as they are.
\<close>

definition toUpperChar :: "char \<Rightarrow> char" where
  "toUpperChar c =
     (if CHR ''a'' \<le> c \<and> c \<le> CHR ''z'' then char_of (of_char c - (32::nat)) else c)"

definition ToUpper :: "string \<Rightarrow> string" where
  "ToUpper s = map toUpperChar s"

section \<open>Go values\<close>

text \<open>
  A call either returns or panics. Errors that a function returns as its second
  result are values of a sum type inside \<open>Returns\<close>.
\<close>

datatype 'a outcome = Returns 'a | Panics

text \<open>
  The dynamic values (\<open>interface{}\<close>) that flow through the generator: what
  \<open>encoding/json\<close> decodes (nil, bool, float64, string, \<open>[]interface{}\<close>,
  \<open>map[string]interface{}\<close>) and the few other Go values the generator itself makes
  (an \<open>int\<close>, a \<open>json.RawMessage\<close>, a \<open>[]string\<close>). A Go map is an association
  list; its order stands for one iteration order of the map, which Go leaves
  unspecified.
\<close>

datatype val =
    VNil
  | VBool bool
  | VFloat rat
  | VInt int
  | VStr string
  | VSlice "val list"
  | VMap "(string \<times> val) list"
  | VRaw string
  | VStrSlice "string list"

section \<open>The OpenAPI model (spec/spec.go)\<close>

text \<open>
  The struct \<open>Schema\<close>, field by field. A slice whose nil-ness the code tests
  (\<open>Enum\<close>), a map (\<open>Properties\<close>), a \<open>json.RawMessage\<close> and a pointer are options
  (\<open>None\<close> is nil); the other slices are lists, the code only ever takes their length.
\<close>

datatype Schema = Schema
  (AdditionalProperties: val)
  (Discriminator: val)
  (AllOf: "Schema list")
  (AnyOf: "Schema list")
  (OneOf: "Schema list")
  (Enum: "val list option")
  (Format: string)
  (Items: "Schema option")
  (MaxLength: int)
  (MinLength: int)
  (Minimum: int)
  (Maximum: int)
  (Default: "string option")
  (Nullable: bool)
  (Example: "string option")
  (Pattern: string)
  (Properties: "(string \<times> Schema) list option")
  (Required: "string list")
  (Type: string)
  (WriteOnly: bool)
  (ReadOnly: bool)
  (Ref: string)
  (XExpandableFields: "string list option")
  (XExpansionResources: "ExpansionResources option")
  (XResourceID: string)
and ExpansionResources = ExpansionResources (OneOfs: "Schema list")

text \<open>The zero value \<open>Schema{}\<close>.\<close>

definition zeroSchema :: Schema where
  "zeroSchema = Schema.Schema VNil VNil [] [] [] None [] None 0 0 0 0 None False None []
     None [] [] False False [] None None []"

definition TypeArray :: string where "TypeArray = ''array''"
definition TypeBoolean :: string where "TypeBoolean = ''boolean''"
definition TypeInteger :: string where "TypeInteger = ''integer''"
definition TypeNumber :: string where "TypeNumber = ''number''"
definition TypeObject :: string where "TypeObject = ''object''"
definition TypeString :: string where "TypeString = ''string''"
definition ParameterPath :: string where "ParameterPath = ''path''"
definition ParameterQuery :: string where "ParameterQuery = ''query''"

record MediaType =
  Schema :: "Schema option"

record Parameter =
  Description :: string
  In :: string
  Name :: string
  Required :: bool
  Schema :: "Schema option"
  Ref :: string

record RequestBody =
  Content :: "(string \<times> MediaType) list"
  Required :: bool

record Response =
  Description :: string
  Content :: "(string \<times> MediaType) list"
  Ref :: string

record Operation =
  Description :: string
  OperationID :: string
  Parameters :: "Parameter list"
  RequestBody :: "RequestBody option"
  Responses :: "(string \<times> Response) list"

record Components =
  Schemas :: "(string \<times> Schema) list"
  Parameters :: "(string \<times> Parameter) list"
  Responses :: "(string \<times> Response) list"

text \<open>
  \<open>Paths\<close> is a map from path to a map from verb to operation; both levels are
  association lists in one iteration order.
\<close>

record Spec =
  Components :: Components
  Paths :: "(string \<times> (string \<times> Operation) list) list"

section \<open>Authorization (server.go, validateAuth)\<close>

definition validateAuth :: "string \<Rightarrow> bool" where
  "validateAuth auth =
     (if auth = [] then False
      else let parts = Split auth '' '' in
        if length parts \<noteq> 2 \<or> parts ! 1 = [] then False
        else if parts ! 0 \<noteq> ''Bearer'' then False
        else let key = parts ! 1; keyParts = Split key ''KEY'' in
          if length keyParts \<noteq> 2 then False
          else if length (keyParts ! 1) = 0 then False
          else True)"


section \<open>The router (server.go)\<close>

record PathParamsSecondaryID =
  ID :: string
  Name :: string
  replacedIDs :: "string list"

record PathParamsMap =
  PrimaryID :: "string option"
  SecondaryIDs :: "PathParamsSecondaryID list"
  replacedPrimaryID :: "string option"

text \<open>
  \<open>compilePath\<close> builds the text of a regular expression, \<open>\A/seg/.../seg\z\<close>, and
  compiles it with \<open>regexp.MustCompile\<close>. A part \<open>{name}\<close> of the path becomes the
  capture group \<open>(?P<name>[^\.\/\?]+)\<close>; any other part is pasted into the
  expression as it is, without \<open>regexp.QuoteMeta\<close>. Go's \<open>regexp\<close> package is not part
  of these sources. The compiled expression is modelled by its list of segments,
  for the paths whose pasted parts are plain: parts of ASCII characters none of
  which is one of the characters \<open>\.+*?()|[]{}^$\<close> that are special in a regular
  expression. Such a part stands for itself in the expression, the expression
  compiles, and it matches what its segments match. A path with another pasted
  part has no model: for it \<open>compilePath\<close> is \<open>None\<close> here, where the program either
  panics in \<open>MustCompile\<close> or ends with an expression that matches other strings
  than the part.
\<close>

datatype pathSegment = Literal string | Capture string

text \<open>The character class \<open>\w\<close> of Go's regexp: \<open>[0-9A-Za-z_]\<close>.\<close>

definition isWordChar :: "char \<Rightarrow> bool" where
  "isWordChar c =
     ((CHR ''0'' \<le> c \<and> c \<le> CHR ''9'') \<or> (CHR ''A'' \<le> c \<and> c \<le> CHR ''Z'')
      \<or> (CHR ''a'' \<le> c \<and> c \<le> CHR ''z'') \<or> c = CHR ''_'')"

text \<open>
  \<open>pathParameterPattern.FindAllStringSubmatch(part, -1)\<close> for the pattern
  \<open>\{(\w+)\}\<close>, reduced to what \<open>compilePath\<close> reads of it: the first capture of the
  leftmost match (\<open>submatches[0][1]\<close>), or \<open>None\<close> when there is no match.
\<close>

fun findPathParameter :: "string \<Rightarrow> string option" where
  "findPathParameter [] = None"
| "findPathParameter (c # cs) =
     (if c = CHR ''{'' \<and> takeWhile isWordChar cs \<noteq> []
         \<and> (case dropWhile isWordChar cs of [] \<Rightarrow> False | d # _ \<Rightarrow> d = CHR ''}'')
      then Some (takeWhile isWordChar cs)
      else findPathParameter cs)"

text \<open>
  The characters that are special in a regular expression (the ones
  \<open>regexp.QuoteMeta\<close> escapes), and the plain parts: ASCII and free of them.
\<close>

definition metaCharacters :: "char list" where
  "metaCharacters =
     [CHR 0x5C, CHR ''.'', CHR ''+'', CHR ''*'', CHR ''?'', CHR ''('', CHR '')'', CHR ''|'',
      CHR ''['', CHR '']'', CHR ''{'', CHR ''}'', CHR ''^'', CHR ''$'']"

definition isPlainChar :: "char \<Rightarrow> bool" where
  "isPlainChar c = (c \<notin> set metaCharacters \<and> (of_char c :: nat) < 128)"

definition plainPart :: "string \<Rightarrow> bool" where
  "plainPart part = list_all isPlainChar part"

text \<open>
  The loop of \<open>compilePath\<close> over the parts of the path, and the compilation of what
  it has built; \<open>None\<close> when a pasted part is not plain.
\<close>

fun compileParts :: "string list \<Rightarrow> (pathSegment list \<times> string list) option" where
  "compileParts [] = Some ([], [])"
| "compileParts (part # parts) =
     (case compileParts parts of
        None \<Rightarrow> None
      | Some (pat, names) \<Rightarrow>
          if part = [] then Some (pat, names)
          else case findPathParameter part of
                 None \<Rightarrow> if plainPart part then Some (Literal part # pat, names) else None
               | Some name \<Rightarrow> Some (Capture name # pat, name # names))"

definition compilePath :: "string \<Rightarrow> (pathSegment list \<times> string list) option" where
  "compilePath path = compileParts (Split path ''/'')"

text \<open>The characters a capture group \<open>[^\.\/\?]+\<close> accepts.\<close>

definition isCaptureChar :: "char \<Rightarrow> bool" where
  "isCaptureChar c = (c \<noteq> CHR ''.'' \<and> c \<noteq> CHR ''/'' \<and> c \<noteq> CHR ''?'')"

text \<open>
  Matching the anchored expression of a compiled path against a whole string: the
  capture groups in order, or \<open>None\<close> when the string does not match. A literal
  segment is a plain part and matches itself. A capture group is followed by
  \<open>/\<close> or by the end of the string, neither of which it can contain, so it takes the
  longest run of accepted characters.
\<close>

fun matchSegments :: "pathSegment list \<Rightarrow> string \<Rightarrow> string list option" where
  "matchSegments [] s = (if s = [] then Some [] else None)"
| "matchSegments (Literal l # ps) s =
     (if prefix (CHR ''/'' # l) s then matchSegments ps (drop (Suc (length l)) s) else None)"
| "matchSegments (Capture n # ps) s =
     (case s of
        [] \<Rightarrow> None
      | c # r \<Rightarrow>
          if c = CHR ''/'' \<and> takeWhile isCaptureChar r \<noteq> []
          then map_option (Cons (takeWhile isCaptureChar r))
                 (matchSegments ps (dropWhile isCaptureChar r))
          else None)"

text \<open>
  \<open>pattern.FindAllStringSubmatch(s, -1)\<close>: the expression is anchored at both ends,
  so there is at most one match; it consists of the whole string followed by the
  captures. \<open>None\<close> stands for the empty result.
\<close>

definition FindAllStringSubmatch :: "pathSegment list \<Rightarrow> string \<Rightarrow> string list option" where
  "FindAllStringSubmatch pat s = map_option (Cons s) (matchSegments pat s)"

text \<open>
  A route. The fields \<open>requestMediaType\<close>, \<open>requestSchema\<close> and \<open>requestValidator\<close>
  are built by validator code outside these sources and read only by request
  validation; they play no part in routing and are left out.
\<close>

record stubServerRoute =
  hasPrimaryID :: bool
  operation :: Operation
  pathParamNames :: "string list"
  pattern :: "pathSegment list"

definition hasPrimaryIDSuffixes :: "string list" where
  "hasPrimaryIDSuffixes =
     [''}'', ''/approve'', ''/capture'', ''/cancel'', ''/close'', ''/decline'',
      ''/finalize'', ''/mark_uncollectible'', ''/pay'', ''/refund'', ''/reject'',
      ''/send'', ''/verify'', ''/void'']"

text \<open>
  The body of the inner loop of \<open>initializeRouter\<close>: the route of one operation of a
  path, from the pattern and the parameter names that \<open>compilePath\<close> returned for
  the path.
\<close>

definition makeRoute :: "string \<Rightarrow> pathSegment list \<Rightarrow> string list \<Rightarrow> Operation \<Rightarrow> stubServerRoute" where
  "makeRoute path pathPattern names op =
     \<lparr> hasPrimaryID = list_ex (HasSuffix path) hasPrimaryIDSuffixes,
       operation = op,
       pathParamNames = names,
       pattern = pathPattern \<rparr>"

text \<open>\<open>s.routes[verb] = append(s.routes[verb], route)\<close> on the table of routes by verb.\<close>

definition routesOf :: "(string \<times> stubServerRoute list) list \<Rightarrow> string \<Rightarrow> stubServerRoute list" where
  "routesOf routes verb = (case map_of routes verb of None \<Rightarrow> [] | Some rs \<Rightarrow> rs)"

definition appendRoute ::
  "(string \<times> stubServerRoute list) list \<Rightarrow> string \<Rightarrow> stubServerRoute
     \<Rightarrow> (string \<times> stubServerRoute list) list" where
  "appendRoute routes verb route = AList.update verb (routesOf routes verb @ [route]) routes"

text \<open>The inner loop, over the verbs of a path.\<close>

fun addVerbs ::
  "string \<Rightarrow> pathSegment list \<Rightarrow> string list \<Rightarrow> (string \<times> Operation) list
     \<Rightarrow> (string \<times> stubServerRoute list) list \<Rightarrow> (string \<times> stubServerRoute list) list" where
  "addVerbs path pathPattern names [] routes = routes"
| "addVerbs path pathPattern names ((verb, op) # verbs) routes =
     addVerbs path pathPattern names verbs
       (appendRoute routes (ToUpper verb) (makeRoute path pathPattern names op))"

text \<open>
  The outer loop, over the paths: it compiles the path, then runs the inner loop.
  The result is \<open>None\<close> when \<open>compilePath\<close> is.
\<close>

fun addPaths ::
  "(string \<times> (string \<times> Operation) list) list \<Rightarrow> (string \<times> stubServerRoute list) list
     \<Rightarrow> (string \<times> stubServerRoute list) list option" where
  "addPaths [] routes = Some routes"
| "addPaths ((path, verbs) # paths) routes =
     (case compilePath path of
        None \<Rightarrow> None
      | Some (pathPattern, names) \<Rightarrow> addPaths paths (addVerbs path pathPattern names verbs routes))"

text \<open>
  \<open>sort.Slice\<close> with the comparison "fewer path parameters". \<open>sort.Slice\<close> is not
  stable, and the routes reach it in the iteration order of Go maps, which is
  unspecified; the table the program ends with is therefore some permutation of the
  routes of the verb that is sorted by parameter count. Here the paths come in one
  (arbitrary) order and the sort is the stable insertion sort: every sorted
  permutation is the result for some order of the paths, so a statement proved for
  all orders holds of every table the program can build.
\<close>

definition sortRoutes :: "stubServerRoute list \<Rightarrow> stubServerRoute list" where
  "sortRoutes verbRoutes = sort_key (\<lambda>r. length (pathParamNames r)) verbRoutes"

text \<open>
  \<open>initializeRouter\<close>: the table of routes by verb, each list sorted. The validators
  it also builds, and the error it returns when one cannot be built, belong to code
  outside these sources.
\<close>

definition initializeRouter :: "Spec \<Rightarrow> (string \<times> stubServerRoute list) list option" where
  "initializeRouter spec =
     map_option (map (\<lambda>(verb, verbRoutes). (verb, sortRoutes verbRoutes))) (addPaths (Paths spec) [])"

text \<open>
  The body of the loop of \<open>routeRequest\<close> once the pattern of \<open>route\<close> has matched;
  \<open>firstMatch\<close> is the whole match followed by the capture groups. The result is the
  pair Go returns; a \<open>None\<close> second component is a nil \<open>*PathParamsMap\<close>. Reading
  \<open>firstMatch\<close> out of range panics.
\<close>

definition makeSecondaryIDs :: "string list \<Rightarrow> string list \<Rightarrow> nat \<Rightarrow> PathParamsSecondaryID list" where
  "makeSecondaryIDs firstMatch names numSecondaryIDs =
     map (\<lambda>i. \<lparr> ID = firstMatch ! (i + 1), Name = names ! i, replacedIDs = [] \<rparr>)
       [0 ..< numSecondaryIDs]"

definition routeMatched ::
  "stubServerRoute \<Rightarrow> string list \<Rightarrow> (stubServerRoute \<times> PathParamsMap option) option outcome" where
  "routeMatched route firstMatch =
     (if length (pathParamNames route) < 1 then Returns (Some (route, None))
      else
        let numSecondaryIDs =
              (if hasPrimaryID route then length (pathParamNames route) - 1
               else length (pathParamNames route))
        in if length firstMatch \<le> numSecondaryIDs then Panics
           else Returns (Some (route,
             Some \<lparr> PrimaryID = (if hasPrimaryID route then Some (last firstMatch) else None),
                    SecondaryIDs = makeSecondaryIDs firstMatch (pathParamNames route) numSecondaryIDs,
                    replacedPrimaryID = None \<rparr>)))"

text \<open>
  The loop of \<open>routeRequest\<close> over the routes of the verb; \<open>splitPath\<close> is the result
  of \<open>strings.SplitAfterN(r.URL.Path, "/v2", 2)\<close>. \<open>Returns None\<close> is the final
  \<open>return nil, nil\<close>.
\<close>

fun routeLoop ::
  "stubServerRoute list \<Rightarrow> string list
     \<Rightarrow> (stubServerRoute \<times> PathParamsMap option) option outcome" where
  "routeLoop [] splitPath = Returns None"
| "routeLoop (route # verbRoutes) splitPath =
     (if length splitPath < 2 then routeLoop verbRoutes splitPath
      else case FindAllStringSubmatch (pattern route) (splitPath ! 1) of
        None \<Rightarrow> routeLoop verbRoutes splitPath
      | Some firstMatch \<Rightarrow> routeMatched route firstMatch)"

definition routeRequest ::
  "(string \<times> stubServerRoute list) list \<Rightarrow> string \<Rightarrow> string
     \<Rightarrow> (stubServerRoute \<times> PathParamsMap option) option outcome" where
  "routeRequest routes method path = routeLoop (routesOf routes method) (SplitAfterN2 path ''/v2'')"


section \<open>The front controller (server.go, HandleRequest)\<close>

record ResponseError =
  Message :: string
  Type :: string

definition createTelnyxError :: "string \<Rightarrow> string \<Rightarrow> ResponseError" where
  "createTelnyxError errorType errorMessage = \<lparr> Message = errorMessage, Type = errorType \<rparr>"

definition typeInvalidRequestError :: string where
  "typeInvalidRequestError = ''invalid_request_error''"

definition internalServerError :: string where
  "internalServerError = ''An internal error occurred.''"

text \<open>\<open>fmt.Sprintf(invalidAuthorization, auth)\<close> and \<open>fmt.Sprintf(invalidRoute, method, path)\<close>.\<close>

definition invalidAuthorization :: "string \<Rightarrow> string" where
  "invalidAuthorization auth =
     ''Please authenticate by specifying an `Authorization` header with any valid looking testmode secret API key. For example, `Authorization: Bearer KEYSUPERSECRET`. Authorization was '' @ [CHR 0x27] @ auth @ [CHR 0x27] @ ''.''"

definition invalidRoute :: "string \<Rightarrow> string \<Rightarrow> string" where
  "invalidRoute method path = ''Unrecognized request URL ('' @ method @ '': '' @ path @ '').''"

definition createInternalServerError :: ResponseError where
  "createInternalServerError = createTelnyxError typeInvalidRequestError internalServerError"

text \<open>
  What \<open>writeResponse\<close> sends: the status code and the value that is encoded as the
  body, an error structure or generated data. Headers, logging and the JSON encoding
  itself are not modelled.
\<close>

datatype body = ErrorBody ResponseError | DataBody val

record HTTPResponse =
  status :: nat
  body :: body

definition writeResponse :: "nat \<Rightarrow> body \<Rightarrow> HTTPResponse" where
  "writeResponse st data = \<lparr> status = st, body = data \<rparr>"

definition StatusOK :: nat where "StatusOK = 200"
definition StatusBadRequest :: nat where "StatusBadRequest = 400"
definition StatusUnauthorized :: nat where "StatusUnauthorized = 401"
definition StatusNotFound :: nat where "StatusNotFound = 404"
definition StatusInternalServerError :: nat where "StatusInternalServerError = 500"

text \<open>
  The request as the handler reads it: method, \<open>r.URL.Path\<close> and the headers
  (\<open>r.Header.Get\<close> gives the empty string for a header that is absent).
\<close>

record Request =
  Method :: string
  URLPath :: string
  Header :: "(string \<times> string) list"

definition HeaderGet :: "Request \<Rightarrow> string \<Rightarrow> string" where
  "HeaderGet r key = (case map_of (Header r) key of None \<Rightarrow> [] | Some v \<Rightarrow> v)"

record StubServer =
  fixtures :: "(string \<times> val) list"
  routes :: "(string \<times> stubServerRoute list) list"
  spec :: Spec

text \<open>
  The loop over the status codes \<open>200\<close>, \<open>201\<close>, \<open>202\<close>: the first response the
  operation declares, \<open>None\<close> when \<open>ok\<close> is false after the loop.
\<close>

fun firstResponse :: "(string \<times> Response) list \<Rightarrow> string list \<Rightarrow> Response option" where
  "firstResponse responses [] = None"
| "firstResponse responses (code # codes) =
     (case map_of responses code of
        Some response \<Rightarrow> Some response
      | None \<Rightarrow> firstResponse responses codes)"

text \<open>
  Lines 173 to 192: from the response to the schema of the data. Indexing
  \<open>responseName[1]\<close> or \<open>schemaName[1]\<close> when the reference did not contain the
  separator panics (index out of range); a lookup that finds nothing leaves a nil
  pointer (or a \<open>MediaType\<close> whose \<open>Schema\<close> is nil), and the field access that follows
  dereferences it and panics. The only test is the one after the last lookup. The
  remainder of the handler (parsing, coercion and validation of the parameters,
  generation, the final write) is \<open>rest\<close>: its code is in packages outside these
  sources.
\<close>

definition resolveDataSchema ::
  "StubServer \<Rightarrow> (Schema \<Rightarrow> bool \<Rightarrow> HTTPResponse outcome) \<Rightarrow> Response \<Rightarrow> HTTPResponse outcome" where
  "resolveDataSchema s rest response =
     (let responseName = SplitAfterN2 (Response.Ref response) ''#/components/responses/'' in
      if length responseName < 2 then Panics
      else case map_of (Components.Responses (Components (spec s))) (responseName ! 1) of
        None \<Rightarrow> Panics
      | Some responseObject \<Rightarrow>
          (case map_of (Response.Content responseObject) ''application/json'' of
             None \<Rightarrow> Panics
           | Some responseContent \<Rightarrow>
               (case MediaType.Schema responseContent of
                  None \<Rightarrow> Panics
                | Some contentSchema \<Rightarrow>
                    (case Properties contentSchema of
                       None \<Rightarrow> Panics
                     | Some props \<Rightarrow>
                         (case map_of props ''data'' of
                            None \<Rightarrow> Panics
                          | Some dataSchema \<Rightarrow>
                              (let refAndWrap =
                                     (if Schema.Ref dataSchema \<noteq> [] then Some (Schema.Ref dataSchema, False)
                                      else case Items dataSchema of
                                             None \<Rightarrow> None
                                           | Some items \<Rightarrow> Some (Schema.Ref items, True))
                               in case refAndWrap of
                                    None \<Rightarrow> Panics
                                  | Some (responseRef, wrapWithList) \<Rightarrow>
                                      (let schemaName = SplitAfterN2 responseRef ''#/components/schemas/'' in
                                       if length schemaName < 2 then Panics
                                       else case map_of (Schemas (Components (spec s))) (schemaName ! 1) of
                                              None \<Rightarrow>
                                                Returns (writeResponse StatusInternalServerError
                                                  (ErrorBody createInternalServerError))
                                            | Some schema \<Rightarrow> rest schema wrapWithList)))))))"

definition HandleRequest ::
  "StubServer
     \<Rightarrow> (Request \<Rightarrow> stubServerRoute \<Rightarrow> PathParamsMap option \<Rightarrow> Schema \<Rightarrow> bool \<Rightarrow> HTTPResponse outcome)
     \<Rightarrow> Request \<Rightarrow> HTTPResponse outcome" where
  "HandleRequest s rest r =
     (let auth = HeaderGet r ''Authorization'' in
      if \<not> validateAuth auth
      then Returns (writeResponse StatusUnauthorized
             (ErrorBody (createTelnyxError typeInvalidRequestError (invalidAuthorization auth))))
      else case routeRequest (routes s) (Method r) (URLPath r) of
        Panics \<Rightarrow> Panics
      | Returns None \<Rightarrow>
          Returns (writeResponse StatusNotFound
            (ErrorBody (createTelnyxError typeInvalidRequestError (invalidRoute (Method r) (URLPath r)))))
      | Returns (Some (route, pathParams)) \<Rightarrow>
          (case firstResponse (Operation.Responses (operation route)) [''200'', ''201'', ''202''] of
             None \<Rightarrow>
               Returns (writeResponse StatusInternalServerError (ErrorBody createInternalServerError))
           | Some response \<Rightarrow> resolveDataSchema s (rest r route pathParams) response))"

section \<open>Facts about the string functions\<close>

lemma splitAcc_nonempty: "splitAcc sep acc s \<noteq> []"
  by (induction sep acc s rule: splitAcc.induct) auto

lemma splitAcc_no_occ: "\<not> sublist sep s \<Longrightarrow> splitAcc sep acc s = [rev acc @ s]"
proof (induction s arbitrary: acc)
  case Nil
  then show ?case by simp
next
  case (Cons c cs)
  from Cons.prems have np: "\<not> prefix sep (c # cs)" and ns: "\<not> sublist sep cs"
    by (auto simp: sublist_Cons_right)
  show ?case using np Cons.IH[OF ns, of "c # acc"] by simp
qed

lemma splitAcc_length_ge2:
  "sep \<noteq> [] \<Longrightarrow> sublist sep s \<Longrightarrow> 2 \<le> length (splitAcc sep acc s)"
proof (induction s arbitrary: acc)
  case Nil
  then show ?case by simp
next
  case (Cons c cs)
  show ?case
  proof (cases "prefix sep (c # cs)")
    case True
    then show ?thesis using Cons.prems(1)
      using splitAcc_nonempty[of sep "[]" "drop (length sep) (c # cs)"]
      by (cases "splitAcc sep [] (drop (length sep) (c # cs))") simp_all
  next
    case False
    with Cons.prems have "sublist sep cs" by (auto simp: sublist_Cons_right)
    from Cons.IH[OF Cons.prems(1) this, of "c # acc"] False show ?thesis by simp
  qed
qed

lemma splitAcc_prefix_sep:
  "sep \<noteq> [] \<Longrightarrow> splitAcc sep acc (sep @ s) = rev acc # splitAcc sep [] s"
  by (cases sep) simp_all

lemma Join_splitAcc: "sep \<noteq> [] \<Longrightarrow> Join (splitAcc sep acc s) sep = rev acc @ s"
proof (induction sep acc s rule: splitAcc.induct)
  case (1 sep acc)
  then show ?case by simp
next
  case (2 sep acc c cs)
  show ?case
  proof (cases "prefix sep (c # cs)")
    case True
    then obtain r where r: "c # cs = sep @ r" by (auto simp: prefix_def)
    have ne: "splitAcc sep [] (drop (length sep) (c # cs)) \<noteq> []" by (rule splitAcc_nonempty)
    then obtain y ys where y: "splitAcc sep [] (drop (length sep) (c # cs)) = y # ys"
      by (cases "splitAcc sep [] (drop (length sep) (c # cs))") auto
    from 2(1)[OF _ "2.prems"] True "2.prems"
    have "Join (splitAcc sep [] (drop (length sep) (c # cs))) sep = drop (length sep) (c # cs)" by simp
    then show ?thesis using "2.prems" y r splitAcc_prefix_sep[OF "2.prems", of acc r] by simp
  next
    case False
    with 2(2) "2.prems" show ?thesis by simp
  qed
qed

lemma Join_Split: "sep \<noteq> [] \<Longrightarrow> Join (Split s sep) sep = s"
  by (simp add: Split_def Join_splitAcc)

lemma sublist_single: "sublist [c] s \<longleftrightarrow> c \<in> set s"
  by (induction s) (auto simp: sublist_Cons_right)

lemma length_two_conv: "length xs = 2 \<longleftrightarrow> (\<exists>a b. xs = [a, b])"
  by (cases xs; cases "tl xs") auto

section \<open>validateAuth\<close>

lemma Split_bearer_key:
  "Split (''Bearer KEY'' @ k) '' '' =
     (if CHR '' '' \<in> set k then ''Bearer'' # splitAcc '' '' ''YEK'' k else [''Bearer'', ''KEY'' @ k])"
  by (simp add: Split_def splitAcc_no_occ sublist_single)

lemma length_split_space_key:
  "CHR '' '' \<in> set k \<Longrightarrow> 2 \<le> length (splitAcc '' '' ''YEK'' k)"
  by (rule splitAcc_length_ge2) (simp_all add: sublist_single)

lemma Split_KEY_key:
  "Split (''KEY'' @ k) ''KEY'' = [] # splitAcc ''KEY'' [] k"
  by (simp add: Split_def)

lemma validateAuth_bearer_key:
  "validateAuth (''Bearer KEY'' @ k) \<longleftrightarrow> k \<noteq> [] \<and> CHR '' '' \<notin> set k \<and> \<not> sublist ''KEY'' k"
proof (cases "CHR '' '' \<in> set k")
  case True
  with length_split_space_key[OF True] show ?thesis
    unfolding validateAuth_def Split_bearer_key by (simp add: Let_def)
next
  case False
  show ?thesis
  proof (cases "sublist ''KEY'' k")
    case True
    have "2 \<le> length (splitAcc ''KEY'' [] k)" by (rule splitAcc_length_ge2) (simp_all add: True)
    with True False show ?thesis
      unfolding validateAuth_def Split_bearer_key
      by (simp add: Let_def Split_KEY_key[simplified])
  next
    case nk: False
    with False show ?thesis
      unfolding validateAuth_def Split_bearer_key
      by (simp add: Let_def Split_KEY_key[simplified] splitAcc_no_occ)
  qed
qed

lemma validateAuth_shape:
  assumes "validateAuth auth"
  shows "\<exists>p k. auth = ''Bearer '' @ p @ ''KEY'' @ k \<and> k \<noteq> []"
proof -
  let ?parts = "Split auth '' ''"
  from assms have l2: "length ?parts = 2" and b: "?parts ! 0 = ''Bearer''"
    by (auto simp: validateAuth_def Let_def split: if_splits)
  then obtain key where parts: "?parts = [''Bearer'', key]"
    by (auto simp: length_two_conv)
  let ?keyParts = "Split key ''KEY''"
  from assms parts have k2: "length ?keyParts = 2" and ne: "?keyParts ! 1 \<noteq> []"
    by (auto simp: validateAuth_def Let_def split: if_splits)
  then obtain p k where kp: "?keyParts = [p, k]" and "k \<noteq> []"
    by (auto simp: length_two_conv)
  have "auth = Join ?parts '' ''" by (simp add: Join_Split)
  also have "\<dots> = ''Bearer '' @ key" by (simp add: parts)
  also have "key = Join ?keyParts ''KEY''" by (simp add: Join_Split)
  finally have "auth = ''Bearer '' @ p @ ''KEY'' @ k" by (simp add: kp)
  with \<open>k \<noteq> []\<close> show ?thesis by blast
qed

text \<open>
  Claim C1 as the specification words it: \<open>validateAuth\<close> is true exactly for the
  headers \<open>Bearer KEY<k>\<close> with \<open>k\<close> non-empty. The header \<open>Bearer KEYa b\<close> has that
  form, and the code rejects it: the header is split at every space and must have
  exactly two parts.
\<close>

theorem validateAuth_rejects_key_with_space:
  "\<not> validateAuth (''Bearer '' @ ''KEY'' @ ''a b'') \<and> ''a b'' \<noteq> []"
  by (simp add: validateAuth_def Split_def)

text \<open>
  Claim C1, amended. On the headers \<open>Bearer KEY<k>\<close>, \<open>validateAuth\<close> is true exactly
  when \<open>k\<close> is non-empty and contains neither a space nor a further \<open>KEY\<close>. Every
  header it accepts consists of \<open>Bearer\<close>, one space, and a key in which \<open>KEY\<close> is
  followed by a non-empty rest. A request whose header is rejected is answered with
  status 401 and an \<open>invalid_request_error\<close> body; a request whose header is accepted
  is not answered with 401, as long as the remainder of the handler writes no 401.
\<close>

theorem validateAuth_bearer_key_401:
  "(validateAuth (''Bearer KEY'' @ k) \<longleftrightarrow> k \<noteq> [] \<and> CHR '' '' \<notin> set k \<and> \<not> sublist ''KEY'' k)
   \<and> (validateAuth auth \<longrightarrow> (\<exists>p k'. auth = ''Bearer '' @ p @ ''KEY'' @ k' \<and> k' \<noteq> []))
   \<and> (\<not> validateAuth (HeaderGet r ''Authorization'') \<longrightarrow>
        HandleRequest s rest r =
          Returns \<lparr> status = 401,
                    body = ErrorBody \<lparr> Message = invalidAuthorization (HeaderGet r ''Authorization''),
                                       Type = ''invalid_request_error'' \<rparr> \<rparr>)
   \<and> (validateAuth (HeaderGet r ''Authorization'')
        \<and> (\<forall>route pp sch w resp. rest r route pp sch w = Returns resp \<longrightarrow> status resp \<noteq> 401)
        \<longrightarrow> (\<forall>resp. HandleRequest s rest r = Returns resp \<longrightarrow> status resp \<noteq> 401))"
proof (intro conjI impI allI)
  show "validateAuth (''Bearer KEY'' @ k) \<longleftrightarrow> k \<noteq> [] \<and> CHR '' '' \<notin> set k \<and> \<not> sublist ''KEY'' k"
    by (rule validateAuth_bearer_key)
next
  assume "validateAuth auth"
  then show "\<exists>p k'. auth = ''Bearer '' @ p @ ''KEY'' @ k' \<and> k' \<noteq> []"
    by (rule validateAuth_shape)
next
  assume "\<not> validateAuth (HeaderGet r ''Authorization'')"
  then show "HandleRequest s rest r =
          Returns \<lparr> status = 401,
                    body = ErrorBody \<lparr> Message = invalidAuthorization (HeaderGet r ''Authorization''),
                                       Type = ''invalid_request_error'' \<rparr> \<rparr>"
    by (simp add: HandleRequest_def Let_def writeResponse_def createTelnyxError_def
        StatusUnauthorized_def typeInvalidRequestError_def)
next
  fix resp
  assume a: "validateAuth (HeaderGet r ''Authorization'')
        \<and> (\<forall>route pp sch w resp. rest r route pp sch w = Returns resp \<longrightarrow> status resp \<noteq> 401)"
    and h: "HandleRequest s rest r = Returns resp"
  from a have nr: "\<And>route pp sch w resp. rest r route pp sch w = Returns resp \<Longrightarrow> status resp \<noteq> 401"
    by blast
  from a h show "status resp \<noteq> 401"
    by (auto simp: HandleRequest_def resolveDataSchema_def Let_def writeResponse_def
        StatusNotFound_def StatusInternalServerError_def
        split: outcome.splits option.splits if_splits prod.splits dest: nr)
qed

theorem validateAuth_bearer_key_401_witness:
  "validateAuth ''Bearer KEYSUPERSECRET''
   \<and> HandleRequest \<lparr> fixtures = [], routes = [], spec = \<lparr> Components = \<lparr> Schemas = [], Parameters = [], Responses = [] \<rparr>, Paths = [] \<rparr> \<rparr>
        (\<lambda>r route pp sch w. Panics) \<lparr> Method = ''GET'', URLPath = ''/v2/x'', Header = [] \<rparr>
     = Returns \<lparr> status = 401,
                 body = ErrorBody \<lparr> Message = invalidAuthorization [], Type = ''invalid_request_error'' \<rparr> \<rparr>"
  using validateAuth_bearer_key_401 [of "''SUPERSECRET''" "''Bearer KEYSUPERSECRET''"
      "\<lparr> Method = ''GET'', URLPath = ''/v2/x'', Header = [] \<rparr>"
      "\<lparr> fixtures = [], routes = [], spec = \<lparr> Components = \<lparr> Schemas = [], Parameters = [], Responses = [] \<rparr>, Paths = [] \<rparr> \<rparr>"
      "\<lambda>r route pp sch w. Panics"]
  by (simp add: HeaderGet_def validateAuth_def sublist_Cons_right)



section \<open>Facts about the router\<close>

lemma routesOf_appendRoute:
  "routesOf (appendRoute tbl v r) v' =
     (if v = v' then routesOf tbl v @ [r] else routesOf tbl v')"
  by (simp add: routesOf_def appendRoute_def update_conv')

definition routesAt ::
  "string \<Rightarrow> string \<Rightarrow> pathSegment list \<Rightarrow> string list \<Rightarrow> (string \<times> Operation) list
     \<Rightarrow> stubServerRoute list" where
  "routesAt V path pat names verbs =
     map (\<lambda>(verb, op). makeRoute path pat names op) (filter (\<lambda>(verb, op). ToUpper verb = V) verbs)"

lemma routesOf_addVerbs:
  "routesOf (addVerbs path pat names verbs tbl) V = routesOf tbl V @ routesAt V path pat names verbs"
  by (induction verbs arbitrary: tbl) (auto simp: routesOf_appendRoute routesAt_def)

text \<open>The routes of verb \<open>V\<close> that one entry of \<open>Paths\<close> contributes.\<close>

definition compiledRoutes :: "string \<Rightarrow> string \<times> (string \<times> Operation) list \<Rightarrow> stubServerRoute list" where
  "compiledRoutes V entry =
     (case compilePath (fst entry) of
        None \<Rightarrow> []
      | Some (pat, names) \<Rightarrow> routesAt V (fst entry) pat names (snd entry))"

lemma routesOf_addPaths:
  "addPaths paths tbl = Some tbl' \<Longrightarrow>
     routesOf tbl' V = routesOf tbl V @ concat (map (compiledRoutes V) paths)"
proof (induction paths arbitrary: tbl)
  case Nil
  then show ?case by simp
next
  case (Cons entry paths)
  obtain path verbs where e: "entry = (path, verbs)" by (cases entry)
  from Cons.prems e obtain pat names where c: "compilePath path = Some (pat, names)"
    and a: "addPaths paths (addVerbs path pat names verbs tbl) = Some tbl'"
    by (auto split: option.splits)
  from Cons.IH[OF a] c e show ?case
    by (simp add: routesOf_addVerbs compiledRoutes_def)
qed

lemma map_of_map_values:
  "map_of (map (\<lambda>(k, v). (k, f v)) xs) k = map_option f (map_of xs k)"
  by (induction xs) auto

lemma routesOf_initializeRouter:
  assumes "initializeRouter sp = Some tbl"
  shows "routesOf tbl V = sortRoutes (concat (map (compiledRoutes V) (Paths sp)))"
proof -
  from assms obtain t where a: "addPaths (Paths sp) [] = Some t"
    and tbl: "tbl = map (\<lambda>(verb, verbRoutes). (verb, sortRoutes verbRoutes)) t"
    by (auto simp: initializeRouter_def)
  have "routesOf tbl V = sortRoutes (routesOf t V)"
    unfolding tbl by (simp add: routesOf_def map_of_map_values sortRoutes_def split: option.splits)
  moreover have "routesOf t V = concat (map (compiledRoutes V) (Paths sp))"
    using routesOf_addPaths[OF a, of V] by (simp add: routesOf_def)
  ultimately show ?thesis by simp
qed

lemma set_routesOf_initializeRouter:
  assumes "initializeRouter sp = Some tbl"
  shows "set (routesOf tbl V) =
     {makeRoute path pat names op | path verbs verb op pat names.
        (path, verbs) \<in> set (Paths sp) \<and> (verb, op) \<in> set verbs \<and> ToUpper verb = V
        \<and> compilePath path = Some (pat, names)}"
    (is "_ = ?R")
proof -
  have "set (routesOf tbl V) = (\<Union>entry \<in> set (Paths sp). set (compiledRoutes V entry))"
    by (simp add: routesOf_initializeRouter[OF assms] sortRoutes_def)
  also have "\<dots> = ?R"
  proof (rule set_eqI, rule iffI)
    fix r
    assume "r \<in> (\<Union>entry \<in> set (Paths sp). set (compiledRoutes V entry))"
    then obtain path verbs where e: "(path, verbs) \<in> set (Paths sp)"
      and r: "r \<in> set (compiledRoutes V (path, verbs))"
      by auto
    from r obtain pat names where c: "compilePath path = Some (pat, names)"
      and r': "r \<in> set (routesAt V path pat names verbs)"
      by (cases "compilePath path") (auto simp: compiledRoutes_def)
    from r' obtain verb op where "(verb, op) \<in> set verbs" "ToUpper verb = V"
      "r = makeRoute path pat names op"
      by (auto simp: routesAt_def)
    with e c show "r \<in> ?R" by blast
  next
    fix r
    assume "r \<in> ?R"
    then obtain path verbs verb op pat names where e: "(path, verbs) \<in> set (Paths sp)"
      and v: "(verb, op) \<in> set verbs" "ToUpper verb = V"
      and c: "compilePath path = Some (pat, names)"
      and r: "r = makeRoute path pat names op"
      by blast
    from v have "makeRoute path pat names op \<in> set (routesAt V path pat names verbs)"
      by (force simp: routesAt_def)
    with c r have "r \<in> set (compiledRoutes V (path, verbs))"
      by (simp add: compiledRoutes_def)
    with e show "r \<in> (\<Union>entry \<in> set (Paths sp). set (compiledRoutes V entry))" by blast
  qed
  finally show ?thesis .
qed


text \<open>
  The paths that have a model: every part that \<open>compilePath\<close> pastes into the
  expression is plain. For a specification with such paths the router is built.
\<close>

definition plainPath :: "string \<Rightarrow> bool" where
  "plainPath path =
     list_all (\<lambda>part. part = [] \<or> findPathParameter part \<noteq> None \<or> plainPart part)
       (Split path ''/'')"

definition plainPaths :: "Spec \<Rightarrow> bool" where
  "plainPaths sp = list_all (\<lambda>entry. plainPath (fst entry)) (Paths sp)"

lemma compileParts_plain:
  "list_all (\<lambda>part. part = [] \<or> findPathParameter part \<noteq> None \<or> plainPart part) parts
     \<longleftrightarrow> compileParts parts \<noteq> None"
  by (induction parts) (auto split: option.splits)

lemma compilePath_plain: "plainPath path \<longleftrightarrow> compilePath path \<noteq> None"
  unfolding plainPath_def compilePath_def by (rule compileParts_plain)

lemma addPaths_plain:
  "list_all (\<lambda>entry. plainPath (fst entry)) paths \<Longrightarrow> addPaths paths tbl \<noteq> None"
proof (induction paths arbitrary: tbl)
  case Nil
  then show ?case by simp
next
  case (Cons entry paths)
  obtain path verbs where e: "entry = (path, verbs)" by (cases entry)
  from Cons.prems e obtain pat names where "compilePath path = Some (pat, names)"
    by (auto simp: compilePath_plain)
  with Cons e show ?case by simp
qed

lemma initializeRouter_plain: "plainPaths sp \<Longrightarrow> \<exists>tbl. initializeRouter sp = Some tbl"
  using addPaths_plain[of "Paths sp" "[]"] by (auto simp: plainPaths_def initializeRouter_def)

text \<open>The pattern and the names that \<open>compilePath\<close> returns.\<close>

fun captureNames :: "pathSegment list \<Rightarrow> string list" where
  "captureNames [] = []"
| "captureNames (Literal l # ps) = captureNames ps"
| "captureNames (Capture n # ps) = n # captureNames ps"

fun literals :: "pathSegment list \<Rightarrow> string list" where
  "literals [] = []"
| "literals (Literal l # ps) = l # literals ps"
| "literals (Capture n # ps) = literals ps"

lemma compileParts_names: "compileParts parts = Some (pat, names) \<Longrightarrow> names = captureNames pat"
  by (induction parts arbitrary: pat names) (auto split: option.splits if_splits)

lemma compileParts_literals:
  "compileParts parts = Some (pat, names) \<Longrightarrow> set (literals pat) \<subseteq> set parts - {[]}"
proof (induction parts arbitrary: pat names)
  case Nil
  then show ?case by simp
next
  case (Cons part parts)
  from Cons.prems obtain pat' names' where c: "compileParts parts = Some (pat', names')"
    by (cases "compileParts parts") auto
  note ih = Cons.IH[OF c]
  show ?case
  proof (cases "part = []")
    case True
    with Cons.prems c ih show ?thesis by auto
  next
    case False
    show ?thesis
    proof (cases "findPathParameter part")
      case None
      with Cons.prems c False have "pat = Literal part # pat'" by (simp split: if_splits)
      with ih False show ?thesis by auto
    next
      case (Some name)
      with Cons.prems c False have "pat = Capture name # pat'" by simp
      with ih show ?thesis by auto
    qed
  qed
qed

lemma matchSegments_length:
  "matchSegments ps s = Some caps \<Longrightarrow> length caps = length (captureNames ps)"
proof (induction ps s arbitrary: caps rule: matchSegments.induct)
  case (1 s)
  then show ?case by (simp split: if_splits)
next
  case (2 l ps s)
  then show ?case by (simp split: if_splits)
next
  case (3 n ps s)
  then show ?case by (auto split: list.splits if_splits)
qed






lemma splitAcc_slash_free:
  "c \<notin> set acc \<Longrightarrow> x \<in> set (splitAcc [c] acc s) \<Longrightarrow> c \<notin> set x"
proof (induction s arbitrary: acc)
  case Nil
  then show ?case by simp
next
  case (Cons d ds)
  show ?case
  proof (cases "d = c")
    case True
    with Cons.prems have "x = rev acc \<or> x \<in> set (splitAcc [c] [] ds)" by simp
    then show ?thesis using Cons.prems(1) Cons.IH[of "[]"] by auto
  next
    case False
    with Cons.prems have "x \<in> set (splitAcc [c] (d # acc) ds)" by simp
    then show ?thesis using Cons.IH[of "d # acc"] Cons.prems(1) False by auto
  qed
qed

lemma Split_slash_free: "x \<in> set (Split s [c]) \<Longrightarrow> c \<notin> set x"
  using splitAcc_slash_free[of c "[]" x s] by (simp add: Split_def)

text \<open>
  A route as \<open>initializeRouter\<close> makes them: its parameter names are the names of
  the capture groups of its pattern, and the literal segments of the pattern are
  non-empty and free of \<open>/\<close>.
\<close>

definition wfRoute :: "stubServerRoute \<Rightarrow> bool" where
  "wfRoute r \<longleftrightarrow>
     pathParamNames r = captureNames (pattern r)
     \<and> list_all (\<lambda>l. l \<noteq> [] \<and> CHR ''/'' \<notin> set l) (literals (pattern r))"

lemma wfRoute_makeRoute:
  assumes "compilePath path = Some (pat, names)"
  shows "wfRoute (makeRoute path pat names op)"
proof -
  from assms have c: "compileParts (Split path ''/'') = Some (pat, names)"
    by (simp add: compilePath_def)
  have "l \<noteq> [] \<and> CHR ''/'' \<notin> set l" if "l \<in> set (literals pat)" for l
  proof -
    from that compileParts_literals[OF c] have "l \<in> set (Split path ''/'')" and "l \<noteq> []" by auto
    then show ?thesis using Split_slash_free[of l path "CHR ''/''"] by simp
  qed
  then show ?thesis
    using compileParts_names[OF c] by (simp add: wfRoute_def makeRoute_def list_all_iff)
qed

lemma wfRoute_initializeRouter:
  "initializeRouter sp = Some tbl \<Longrightarrow> r \<in> set (routesOf tbl V) \<Longrightarrow> wfRoute r"
  by (auto simp: set_routesOf_initializeRouter wfRoute_makeRoute)

lemma routeMatched_wf:
  assumes "wfRoute r" and "matchSegments (pattern r) rest = Some caps"
  shows "\<exists>pp. routeMatched r (rest # caps) = Returns (Some (r, pp))"
proof -
  from assms have "length caps = length (pathParamNames r)"
    by (simp add: wfRoute_def matchSegments_length)
  then show ?thesis by (simp add: routeMatched_def Let_def)
qed

lemma routeLoop_wf_no_panic:
  "\<forall>r \<in> set rs. wfRoute r \<Longrightarrow> routeLoop rs splitPath \<noteq> Panics"
proof (induction rs)
  case Nil
  then show ?case by simp
next
  case (Cons r rs)
  show ?case
  proof (cases "length splitPath < 2")
    case True
    with Cons show ?thesis by simp
  next
    case False
    show ?thesis
    proof (cases "matchSegments (pattern r) (splitPath ! 1)")
      case None
      with False Cons show ?thesis by (simp add: FindAllStringSubmatch_def)
    next
      case (Some caps)
      from Cons.prems have "wfRoute r" by simp
      from routeMatched_wf[OF this Some] False Some show ?thesis
        by (auto simp: FindAllStringSubmatch_def)
    qed
  qed
qed

lemma routeRequest_initializeRouter_no_panic:
  "initializeRouter sp = Some tbl \<Longrightarrow> routeRequest tbl V path \<noteq> Panics"
  unfolding routeRequest_def
  by (rule routeLoop_wf_no_panic) (simp add: wfRoute_initializeRouter)

lemma routeLoop_result:
  "routeLoop rs splitPath = Returns (Some (route, pp)) \<Longrightarrow>
     \<exists>firstMatch. routeMatched route firstMatch = Returns (Some (route, pp))"
proof (induction rs)
  case Nil
  then show ?case by simp
next
  case (Cons r rs)
  then show ?case
    by (auto simp: routeMatched_def Let_def split: if_splits option.splits)
qed

lemma routeMatched_params:
  assumes "routeMatched route firstMatch = Returns (Some (route, pp))"
  shows "(pathParamNames route = [] \<longrightarrow> pp = None)
     \<and> (pathParamNames route \<noteq> [] \<longrightarrow>
          (\<exists>p. pp = Some p \<and> (PrimaryID p \<noteq> None \<longleftrightarrow> hasPrimaryID route)
             \<and> length (SecondaryIDs p) =
                 (if hasPrimaryID route then length (pathParamNames route) - 1
                  else length (pathParamNames route))))"
  using assms
  by (auto simp: routeMatched_def Let_def makeSecondaryIDs_def split: if_splits)








section \<open>Example data\<close>

definition emptyOperation :: Operation where
  "emptyOperation = \<lparr> Operation.Description = [], OperationID = [], Parameters = [],
     RequestBody = None, Responses = [] \<rparr>"

definition emptyComponents :: Components where
  "emptyComponents = \<lparr> Schemas = [], Parameters = [], Responses = [] \<rparr>"

definition routerSpec :: Spec where
  "routerSpec = \<lparr> Components = emptyComponents,
     Paths = [(''/x/{id}'', [(''get'', emptyOperation)]),
              (''/x/fixed'', [(''get'', emptyOperation)]),
              (''/y/{a}/z/{b}'', [(''get'', emptyOperation)]),
              (''/x/cancel'', [(''get'', emptyOperation)])] \<rparr>"

text \<open>The four routes of \<open>routerSpec\<close>.\<close>

definition fixedRoute :: stubServerRoute where
  "fixedRoute = makeRoute ''/x/fixed'' [Literal ''x'', Literal ''fixed''] [] emptyOperation"

definition cancelRoute :: stubServerRoute where
  "cancelRoute = makeRoute ''/x/cancel'' [Literal ''x'', Literal ''cancel''] [] emptyOperation"

definition idRoute :: stubServerRoute where
  "idRoute = makeRoute ''/x/{id}'' [Literal ''x'', Capture ''id''] [''id''] emptyOperation"

definition nestedRoute :: stubServerRoute where
  "nestedRoute =
     makeRoute ''/y/{a}/z/{b}'' [Literal ''y'', Capture ''a'', Literal ''z'', Capture ''b'']
       [''a'', ''b''] emptyOperation"


lemma routerSpec_table:
  "initializeRouter routerSpec = Some [(''GET'', [fixedRoute, cancelRoute, idRoute, nestedRoute])]"
  by code_simp

lemma plainPaths_routerSpec: "plainPaths routerSpec"
  by code_simp


text \<open>
  Claim C4 as the specification words it fails for a route without path parameters
  whose path ends in an action suffix: \<open>hasPrimaryID\<close> is true, and the request is
  matched, but \<open>routeRequest\<close> returns no \<open>PathParams\<close> at all (nil), so no
  \<open>PrimaryID\<close> is set.
\<close>

theorem routeRequest_action_route_without_params:
  "map_option (\<lambda>tbl. routeRequest tbl ''GET'' ''/v2/x/cancel'') (initializeRouter routerSpec)
     = Some (Returns (Some (cancelRoute, None)))
   \<and> hasPrimaryID cancelRoute
   \<and> pathParamNames cancelRoute = []"
proof (intro conjI)
  show "map_option (\<lambda>tbl. routeRequest tbl ''GET'' ''/v2/x/cancel'') (initializeRouter routerSpec)
     = Some (Returns (Some (cancelRoute, None)))"
    by code_simp
  show "hasPrimaryID cancelRoute"
    by code_simp
  show "pathParamNames cancelRoute = []"
    by (simp add: cancelRoute_def makeRoute_def)
qed

text \<open>
  Claim C4, amended. For a specification whose paths are plain the router is built
  and routing over it never panics. Whenever \<open>routeRequest\<close> (over any table)
  matches a request to a route with at least one path parameter, it produces a
  \<open>PathParams\<close> whose \<open>PrimaryID\<close> is set exactly when the route's \<open>hasPrimaryID\<close> is
  true, and whose number of \<open>SecondaryIDs\<close> is the parameter count minus one when
  \<open>hasPrimaryID\<close> is true and the full parameter count otherwise. For a route
  without path parameters it produces no \<open>PathParams\<close>.
\<close>

theorem routeRequest_path_params:
  "(plainPaths sp \<longrightarrow>
      (\<exists>built. initializeRouter sp = Some built \<and> routeRequest built V path \<noteq> Panics))
   \<and> (routeRequest tbl V path = Returns (Some (route, pp)) \<longrightarrow>
        (pathParamNames route = [] \<longrightarrow> pp = None)
        \<and> (pathParamNames route \<noteq> [] \<longrightarrow>
             (\<exists>p. pp = Some p \<and> (PrimaryID p \<noteq> None \<longleftrightarrow> hasPrimaryID route)
                \<and> length (SecondaryIDs p) =
                    (if hasPrimaryID route then length (pathParamNames route) - 1
                     else length (pathParamNames route)))))"
proof (intro conjI impI)
  assume "plainPaths sp"
  from initializeRouter_plain[OF this] obtain built where b: "initializeRouter sp = Some built" ..
  from routeRequest_initializeRouter_no_panic[OF b] b
  show "\<exists>built. initializeRouter sp = Some built \<and> routeRequest built V path \<noteq> Panics"
    by blast
next
  assume "routeRequest tbl V path = Returns (Some (route, pp))"
  then obtain firstMatch where m: "routeMatched route firstMatch = Returns (Some (route, pp))"
    unfolding routeRequest_def by (blast dest: routeLoop_result)
  {
    assume "pathParamNames route = []"
    with routeMatched_params[OF m] show "pp = None" by blast
  next
    assume "pathParamNames route \<noteq> []"
    with routeMatched_params[OF m]
    show "\<exists>p. pp = Some p \<and> (PrimaryID p \<noteq> None \<longleftrightarrow> hasPrimaryID route)
                \<and> length (SecondaryIDs p) =
                    (if hasPrimaryID route then length (pathParamNames route) - 1
                     else length (pathParamNames route))"
      by blast
  }
qed

theorem routeRequest_path_params_witness:
  "plainPaths routerSpec
   \<and> map_option (\<lambda>tbl. routeRequest tbl ''GET'' ''/v2/y/abc/z/def'') (initializeRouter routerSpec)
     = Some (Returns (Some (nestedRoute,
         Some \<lparr> PrimaryID = Some ''def'',
                SecondaryIDs = [\<lparr> ID = ''abc'', Name = ''a'', replacedIDs = [] \<rparr>],
                replacedPrimaryID = None \<rparr>)))
   \<and> hasPrimaryID nestedRoute
   \<and> length (pathParamNames nestedRoute) = 2"
proof -
  let ?tbl = "[(''GET'', [fixedRoute, cancelRoute, idRoute, nestedRoute])]"
  let ?X = "\<lparr> PrimaryID = Some ''def'',
                SecondaryIDs = [\<lparr> ID = ''abc'', Name = ''a'', replacedIDs = [] \<rparr>],
                replacedPrimaryID = None \<rparr>"
  have e: "routeRequest ?tbl ''GET'' ''/v2/y/abc/z/def'' = Returns (Some (nestedRoute, Some ?X))"
    by code_simp
  have n: "pathParamNames nestedRoute = [''a'', ''b'']"
    by (simp add: nestedRoute_def makeRoute_def)
  note t = routeRequest_path_params[of routerSpec "''GET''" "''/v2/y/abc/z/def''"
      ?tbl nestedRoute "Some ?X"]
  from t[THEN conjunct1, rule_format, OF plainPaths_routerSpec]
  have b: "routeRequest ?tbl ''GET'' ''/v2/y/abc/z/def'' \<noteq> Panics"
    by (simp add: routerSpec_table)
  from t[THEN conjunct2, rule_format, OF e] n
  have "\<exists>p. Some ?X = Some p \<and> (PrimaryID p \<noteq> None \<longleftrightarrow> hasPrimaryID nestedRoute)"
    by auto
  then have "hasPrimaryID nestedRoute" by auto
  with e n plainPaths_routerSpec show ?thesis by (simp add: routerSpec_table)
qed


section \<open>Resolving the response schema in the handler\<close>


definition operationWithResponse :: "Response \<Rightarrow> Operation" where
  "operationWithResponse response =
     \<lparr> Operation.Description = [], OperationID = [], Parameters = [],
       RequestBody = None, Responses = [(''200'', response)] \<rparr>"

definition serverWithResponse :: "Response \<Rightarrow> (string \<times> Response) list \<Rightarrow> StubServer" where
  "serverWithResponse response responses =
     (let sp = \<lparr> Components = \<lparr> Schemas = [], Parameters = [], Responses = responses \<rparr>,
                 Paths = [(''/x'', [(''get'', operationWithResponse response)])] \<rparr>
      in \<lparr> fixtures = [],
           routes = (case initializeRouter sp of None \<Rightarrow> [] | Some tbl \<Rightarrow> tbl),
           spec = sp \<rparr>)"

definition authorizedGet :: "string \<Rightarrow> Request" where
  "authorizedGet path =
     \<lparr> Method = ''GET'', URLPath = path, Header = [(''Authorization'', ''Bearer KEYSUPERSECRET'')] \<rparr>"

definition dataResponse :: "string \<Rightarrow> Response" where
  "dataResponse ref =
     \<lparr> Response.Description = [],
       Content = [(''application/json'',
         \<lparr> MediaType.Schema = Some (Schema.Schema VNil VNil [] [] [] None [] None 0 0 0 0 None False None []
             (Some [(''data'', Schema.Schema VNil VNil [] [] [] None [] None 0 0 0 0 None False None []
                None [] [] False False ref None None [])])
             [] ''object'' False False [] None None []) \<rparr>)],
       Ref = [] \<rparr>"

lemma auth_ok: "validateAuth (HeaderGet (authorizedGet path) ''Authorization'')"
  by (simp add: authorizedGet_def HeaderGet_def validateAuth_def Split_def)

lemma ToUpper_get: "ToUpper ''get'' = ''GET''"
  by code_simp

lemma route_x: "routeRequest (routes (serverWithResponse response responses)) ''GET'' ''/v2/x''
   = Returns (Some (makeRoute ''/x'' [Literal ''x''] [] (operationWithResponse response), None))"
proof -
  have c: "compilePath ''/x'' = Some ([Literal ''x''], [])" by code_simp
  show ?thesis
    by (simp add: serverWithResponse_def Let_def initializeRouter_def appendRoute_def routesOf_def
        ToUpper_get sortRoutes_def routeRequest_def SplitAfterN2_def c
        FindAllStringSubmatch_def makeRoute_def routeMatched_def)
qed

text \<open>
  Claim C7 at three routed requests, for any remainder of the handler. The operation
  of \<open>/x\<close> declares a \<open>200\<close> response. When that response carries no reference,
  the handler indexes a one-element slice at 1 and panics. When the reference names
  a response that \<open>components/responses\<close> does not have, the handler dereferences
  the nil pointer and panics. Only when everything resolves down to the data schema,
  and that schema is missing from \<open>components/schemas\<close>, does the handler write the
  500 response with the \<open>invalid_request_error\<close> body.
\<close>

theorem HandleRequest_unresolvable_response:
  "HandleRequest (serverWithResponse \<lparr> Response.Description = [], Content = [], Ref = [] \<rparr> [])
       rest (authorizedGet ''/v2/x'') = Panics
   \<and> HandleRequest (serverWithResponse
         \<lparr> Response.Description = [], Content = [], Ref = ''#/components/responses/Missing'' \<rparr> [])
       rest (authorizedGet ''/v2/x'') = Panics
   \<and> HandleRequest (serverWithResponse
         \<lparr> Response.Description = [], Content = [], Ref = ''#/components/responses/R'' \<rparr>
         [(''R'', dataResponse ''#/components/schemas/Missing'')])
       rest (authorizedGet ''/v2/x'')
       = Returns \<lparr> status = 500,
           body = ErrorBody \<lparr> Message = ''An internal error occurred.'', Type = ''invalid_request_error'' \<rparr> \<rparr>"
proof (intro conjI)
  show "HandleRequest (serverWithResponse \<lparr> Response.Description = [], Content = [], Ref = [] \<rparr> [])
       rest (authorizedGet ''/v2/x'') = Panics"
    unfolding HandleRequest_def Let_def
    by (simp add: auth_ok) (simp add: authorizedGet_def route_x, simp add: makeRoute_def operationWithResponse_def
        resolveDataSchema_def SplitAfterN2_def split: prod.splits)
  show "HandleRequest (serverWithResponse
         \<lparr> Response.Description = [], Content = [], Ref = ''#/components/responses/Missing'' \<rparr> [])
       rest (authorizedGet ''/v2/x'') = Panics"
    unfolding HandleRequest_def Let_def
    by (simp add: auth_ok) (simp add: authorizedGet_def route_x, simp add: makeRoute_def operationWithResponse_def
        resolveDataSchema_def SplitAfterN2_def serverWithResponse_def Let_def split: prod.splits)
  show "HandleRequest (serverWithResponse
         \<lparr> Response.Description = [], Content = [], Ref = ''#/components/responses/R'' \<rparr>
         [(''R'', dataResponse ''#/components/schemas/Missing'')])
       rest (authorizedGet ''/v2/x'')
       = Returns \<lparr> status = 500,
           body = ErrorBody \<lparr> Message = ''An internal error occurred.'', Type = ''invalid_request_error'' \<rparr> \<rparr>"
    unfolding HandleRequest_def Let_def
    by (simp add: auth_ok) (simp add: authorizedGet_def route_x, simp add: makeRoute_def operationWithResponse_def
        resolveDataSchema_def SplitAfterN2_def serverWithResponse_def Let_def dataResponse_def
        writeResponse_def StatusInternalServerError_def createInternalServerError_def
        createTelnyxError_def typeInvalidRequestError_def internalServerError_def split: prod.splits)
qed




section \<open>The query schema (spec/query.go, BuildQuerySchema)\<close>

text \<open>
  The loop of \<open>BuildQuerySchema\<close> changes two fields of the schema it builds,
  \<open>Properties\<close> and \<open>Required\<close>; they are the accumulators \<open>props\<close> and \<open>req\<close>.
  \<open>schema.Properties[name] = s\<close> replaces the entry of a name that is already
  there. The result is the pair Go returns, an error message or the schema;
  \<open>refParts[1]\<close> panics when the reference does not contain
  \<open>#/components/parameters/\<close>.
\<close>

definition invalidRef :: "string \<Rightarrow> string" where
  "invalidRef ref = ''invalid $ref '' @ [CHR 0x27] @ ref @ [CHR 0x27]"

definition typeObjectSchema :: Schema where
  "typeObjectSchema = Schema.Schema VNil VNil [] [] [] None [] None 0 0 0 0 None False None []
     None [] TypeObject False False [] None None []"

fun querySchemaLoop ::
  "(string \<times> Parameter) list \<Rightarrow> Parameter list \<Rightarrow> (string \<times> Schema) list \<Rightarrow> string list
     \<Rightarrow> (string + (string \<times> Schema) list \<times> string list) outcome" where
  "querySchemaLoop parameters [] props req = Returns (Inr (props, req))"
| "querySchemaLoop parameters (param # params) props req =
     (let resolved =
            (if Parameter.Ref param \<noteq> []
             then let refParts = SplitAfterN2 (Parameter.Ref param) ''#/components/parameters/'' in
               if length refParts < 2 then Panics
               else case map_of parameters (refParts ! 1) of
                      Some v \<Rightarrow> Returns (Inr v)
                    | None \<Rightarrow> Returns (Inl (invalidRef (Parameter.Ref param)))
             else Returns (Inr param))
      in case resolved of
           Panics \<Rightarrow> Panics
         | Returns (Inl err) \<Rightarrow> Returns (Inl err)
         | Returns (Inr p) \<Rightarrow>
             if Parameter.In p \<noteq> ParameterQuery then querySchemaLoop parameters params props req
             else
               let paramSchema = (case Parameter.Schema p of None \<Rightarrow> typeObjectSchema | Some s \<Rightarrow> s)
               in querySchemaLoop parameters params
                    (AList.update (Parameter.Name p) paramSchema props)
                    (if Parameter.Required p then req @ [Parameter.Name p] else req))"

definition BuildQuerySchema ::
  "Operation \<Rightarrow> (string \<times> Parameter) list \<Rightarrow> (string + Schema) outcome" where
  "BuildQuerySchema op parameters =
     (case querySchemaLoop parameters (Operation.Parameters op) [] [] of
        Panics \<Rightarrow> Panics
      | Returns (Inl err) \<Rightarrow> Returns (Inl err)
      | Returns (Inr (props, req)) \<Rightarrow>
          Returns (Inr (Schema.Schema (VBool False) VNil [] [] [] None [] None 0 0 0 0 None False
            None [] (Some props) req TypeObject False False [] None None [])))"

text \<open>
  What the specification says of the parameters: a parameter carrying a reference
  stands for the parameter of that name in \<open>components/parameters\<close>; the query
  parameters are the ones with \<open>in = query\<close>; a query parameter without a schema
  gets \<open>{type: object}\<close>, the schema whose type is \<open>object\<close> and whose other fields
  are all empty. These definitions are written from the specification and share
  nothing with the loop above.
\<close>

definition dereferenced :: "(string \<times> Parameter) list \<Rightarrow> Parameter \<Rightarrow> Parameter \<Rightarrow> bool" where
  "dereferenced parameters param p \<longleftrightarrow>
     (if Parameter.Ref param = [] then p = param
      else \<exists>name. Parameter.Ref param = ''#/components/parameters/'' @ name
             \<and> map_of parameters name = Some p)"

definition isQueryParameter :: "Parameter \<Rightarrow> bool" where
  "isQueryParameter p \<longleftrightarrow> Parameter.In p = ''query''"

definition schemaOfParameter :: "Parameter \<Rightarrow> Schema" where
  "schemaOfParameter p =
     (case Parameter.Schema p of
        None \<Rightarrow> Schema.Schema VNil VNil [] [] [] None [] None 0 0 0 0 None False None []
                 None [] ''object'' False False [] None None []
      | Some s \<Rightarrow> s)"

definition queryEntries :: "Parameter list \<Rightarrow> (string \<times> Schema) list" where
  "queryEntries ps = map (\<lambda>p. (Parameter.Name p, schemaOfParameter p)) (filter isQueryParameter ps)"

definition requiredNames :: "Parameter list \<Rightarrow> string list" where
  "requiredNames ps = map Parameter.Name (filter (\<lambda>p. isQueryParameter p \<and> Parameter.Required p) ps)"

text \<open>The schema the loop gives a query parameter is the one the specification names.\<close>

lemma schemaOfParameter_code:
  "schemaOfParameter p = (case Parameter.Schema p of None \<Rightarrow> typeObjectSchema | Some s \<Rightarrow> s)"
  by (simp add: schemaOfParameter_def typeObjectSchema_def TypeObject_def split: option.splits)

lemma SplitAfterN2_prefix:
  "sep \<noteq> [] \<Longrightarrow> SplitAfterN2 (sep @ rest) sep = [sep, rest]"
  by (cases sep) (simp_all add: SplitAfterN2_def)

lemma dereferenced_step:
  assumes "dereferenced parameters param p"
  shows "(if Parameter.Ref param \<noteq> []
             then let refParts = SplitAfterN2 (Parameter.Ref param) ''#/components/parameters/'' in
               if length refParts < 2 then Panics
               else case map_of parameters (refParts ! 1) of
                      Some v \<Rightarrow> Returns (Inr v)
                    | None \<Rightarrow> Returns (Inl (invalidRef (Parameter.Ref param)))
             else Returns (Inr param)) = Returns (Inr p)"
proof (cases "Parameter.Ref param = []")
  case True
  with assms show ?thesis by (simp add: dereferenced_def)
next
  case False
  with assms obtain name where n: "Parameter.Ref param = ''#/components/parameters/'' @ name"
    and m: "map_of parameters name = Some p"
    by (auto simp: dereferenced_def)
  have "SplitAfterN2 (Parameter.Ref param) ''#/components/parameters/'' = [''#/components/parameters/'', name]"
    unfolding n by (rule SplitAfterN2_prefix) simp
  with False m show ?thesis by (simp add: Let_def)
qed

lemma querySchemaLoop_resolved:
  assumes "list_all2 (dereferenced parameters) params ps"
  shows "\<exists>props'. querySchemaLoop parameters params props req =
            Returns (Inr (props', req @ requiredNames ps))
          \<and> map_of props' = map_of props ++ map_of (rev (queryEntries ps))
          \<and> (distinct (map fst props) \<longrightarrow> distinct (map fst props'))"
  using assms
proof (induction params ps arbitrary: props req rule: list_all2_induct)
  case Nil
  then show ?case by (simp add: requiredNames_def queryEntries_def)
next
  case (Cons param params p ps)
  note step = dereferenced_step[OF Cons.hyps(1)]
  show ?case
  proof (cases "isQueryParameter p")
    case False
    then have l: "querySchemaLoop parameters (param # params) props req =
        querySchemaLoop parameters params props req"
      using step by (simp add: isQueryParameter_def ParameterQuery_def Let_def del: SplitAfterN2_def)
    from False have "requiredNames (p # ps) = requiredNames ps" "queryEntries (p # ps) = queryEntries ps"
      by (simp_all add: requiredNames_def queryEntries_def)
    with l Cons.IH[of props req] show ?thesis by simp
  next
    case True
    let ?props = "AList.update (Parameter.Name p) (schemaOfParameter p) props"
    let ?req = "if Parameter.Required p then req @ [Parameter.Name p] else req"
    from True have l: "querySchemaLoop parameters (param # params) props req =
        querySchemaLoop parameters params ?props ?req"
      using step
      by (simp add: isQueryParameter_def ParameterQuery_def Let_def schemaOfParameter_code)
    from Cons.IH[of ?props ?req] obtain props' where
      r: "querySchemaLoop parameters params ?props ?req = Returns (Inr (props', ?req @ requiredNames ps))"
      and m: "map_of props' = map_of ?props ++ map_of (rev (queryEntries ps))"
      and d: "distinct (map fst ?props) \<longrightarrow> distinct (map fst props')"
      by blast
    have rq: "?req @ requiredNames ps = req @ requiredNames (p # ps)"
      using True by (simp add: requiredNames_def)
    have "map_of ?props ++ map_of (rev (queryEntries ps)) =
        map_of props ++ map_of (rev (queryEntries (p # ps)))"
      using True by (simp add: queryEntries_def update_conv' map_add_upd_left fun_eq_iff map_add_def split: option.splits)
    with m have m': "map_of props' = map_of props ++ map_of (rev (queryEntries (p # ps)))" by simp
    from d have d': "distinct (map fst props) \<longrightarrow> distinct (map fst props')"
      by (simp add: distinct_update)
    from l r rq m' d' show ?thesis by auto
  qed
qed


lemma querySchemaLoop_append:
  "querySchemaLoop parameters (xs @ ys) props req =
     (case querySchemaLoop parameters xs props req of
        Returns (Inr (props', req')) \<Rightarrow> querySchemaLoop parameters ys props' req'
      | Returns (Inl err) \<Rightarrow> Returns (Inl err)
      | Panics \<Rightarrow> Panics)"
proof (induction xs arbitrary: props req)
  case Nil
  then show ?case by simp
next
  case (Cons x xs)
  show ?case
    by (simp add: Let_def Cons.IH split: outcome.splits sum.splits option.splits)
qed

lemma querySchemaLoop_unresolved:
  assumes "Parameter.Ref param = ''#/components/parameters/'' @ name"
    and "map_of parameters name = None"
  shows "querySchemaLoop parameters (param # params) props req =
     Returns (Inl (invalidRef (Parameter.Ref param)))"
proof -
  have "SplitAfterN2 (Parameter.Ref param) ''#/components/parameters/'' = [''#/components/parameters/'', name]"
    unfolding assms(1) by (rule SplitAfterN2_prefix) simp
  with assms show ?thesis by (simp add: Let_def)
qed

text \<open>
  Claim C8 as the specification words it fails in two ways. A reference that does
  not contain \<open>#/components/parameters/\<close> makes \<open>refParts[1]\<close> panic, whether or
  not \<open>components/parameters\<close> has a parameter of the name it gives: the result is
  neither a schema nor an error. And \<open>Properties\<close> is a map keyed by parameter name:
  two query parameters of the same name leave one property, that of the last one,
  not one property each.
\<close>

definition bareRefOperation :: Operation where
  "bareRefOperation = \<lparr> Operation.Description = [], OperationID = [],
     Parameters = [\<lparr> Parameter.Description = [], In = [], Name = [], Required = False,
                     Schema = None, Ref = ''PageNum'' \<rparr>],
     RequestBody = None, Responses = [] \<rparr>"

definition stringSchema :: Schema where
  "stringSchema = Schema.Schema VNil VNil [] [] [] None [] None 0 0 0 0 None False None []
     None [] TypeString False False [] None None []"

definition numberSchema :: Schema where
  "numberSchema =
     Schema.Schema VNil VNil [] [] [] None [] None 0 0 0 0 None False None [] None [] TypeNumber
       False False [] None None []"

definition pageNumParameter :: Parameter where
  "pageNumParameter = \<lparr> Parameter.Description = [], In = ''query'', Name = ''name'',
     Required = True, Schema = Some stringSchema, Ref = [] \<rparr>"

definition sameNameOperation :: Operation where
  "sameNameOperation = \<lparr> Operation.Description = [], OperationID = [],
     Parameters = [\<lparr> Parameter.Description = [], In = ''query'', Name = ''page'', Required = False,
                     Schema = Some stringSchema, Ref = [] \<rparr>,
                   \<lparr> Parameter.Description = [], In = ''query'', Name = ''page'', Required = False,
                     Schema = Some numberSchema, Ref = [] \<rparr>],
     RequestBody = None, Responses = [] \<rparr>"

theorem BuildQuerySchema_ref_without_prefix:
  "BuildQuerySchema bareRefOperation [(''PageNum'', pageNumParameter)] = Panics
   \<and> BuildQuerySchema bareRefOperation [] = Panics
   \<and> BuildQuerySchema sameNameOperation [] =
       Returns (Inr (Schema.Schema (VBool False) VNil [] [] [] None [] None 0 0 0 0 None False
            None [] (Some [(''page'', numberSchema)]) [] ''object'' False False [] None None []))"
  by (simp add: BuildQuerySchema_def bareRefOperation_def sameNameOperation_def SplitAfterN2_def
      ParameterQuery_def TypeObject_def Let_def)

text \<open>
  Claim C8, amended: for the operations whose references have the form
  \<open>#/components/parameters/<name>\<close>. \<open>ps\<close> are the parameters of the operation
  after dereferencing. The schema returned has type \<open>object\<close> and
  \<open>additionalProperties = false\<close>; its properties have distinct keys, which are
  exactly the names of the query parameters, each bound to the schema of the
  (last) query parameter of that name, \<open>{type: object}\<close> when that parameter has
  none; when the query parameters have distinct names there is exactly one property
  per query parameter; \<open>required\<close> lists the names of the query parameters with
  \<open>required: true\<close>, in order. When the parameters before \<open>param\<close> dereference and
  \<open>param\<close> refers to a name that \<open>components/parameters\<close> does not have, the
  result is an error.
\<close>

theorem BuildQuerySchema_properties:
  "(list_all2 (dereferenced parameters) (Operation.Parameters op) ps \<longrightarrow>
      (\<exists>schema props.
          BuildQuerySchema op parameters = Returns (Inr schema)
        \<and> Schema.Type schema = ''object''
        \<and> AdditionalProperties schema = VBool False
        \<and> Properties schema = Some props
        \<and> Schema.Required schema = requiredNames ps
        \<and> distinct (map fst props)
        \<and> set (map fst props) = Parameter.Name ` set (filter isQueryParameter ps)
        \<and> map_of props = map_of (rev (queryEntries ps))
        \<and> (distinct (map Parameter.Name (filter isQueryParameter ps)) \<longrightarrow>
              length props = length (filter isQueryParameter ps)
            \<and> (\<forall>p \<in> set (filter isQueryParameter ps).
                  map_of props (Parameter.Name p) = Some (schemaOfParameter p)))))
   \<and> (Operation.Parameters op = before @ param # after
        \<and> list_all2 (dereferenced parameters) before ps'
        \<and> Parameter.Ref param = ''#/components/parameters/'' @ name
        \<and> map_of parameters name = None \<longrightarrow>
      BuildQuerySchema op parameters = Returns (Inl (invalidRef (Parameter.Ref param))))"
proof (intro conjI impI)
  assume a: "list_all2 (dereferenced parameters) (Operation.Parameters op) ps"
  from querySchemaLoop_resolved[OF a, of "[]" "[]"] obtain props where
    l: "querySchemaLoop parameters (Operation.Parameters op) [] [] = Returns (Inr (props, requiredNames ps))"
    and m: "map_of props = map_of (rev (queryEntries ps))"
    and d: "distinct (map fst props)"
    by auto
  let ?qs = "filter isQueryParameter ps"
  let ?schema = "Schema.Schema (VBool False) VNil [] [] [] None [] None 0 0 0 0 None False
            None [] (Some props) (requiredNames ps) TypeObject False False [] None None []"
  have b: "BuildQuerySchema op parameters = Returns (Inr ?schema)"
    by (simp add: BuildQuerySchema_def l)
  have "set (map fst props) = dom (map_of props)" by (simp add: dom_map_of_conv_image_fst)
  also have "\<dots> = fst ` set (queryEntries ps)" unfolding m by (simp add: dom_map_of_conv_image_fst)
  also have "\<dots> = Parameter.Name ` set ?qs" by (simp add: queryEntries_def image_image)
  finally have k: "set (map fst props) = Parameter.Name ` set ?qs" .
  have u: "length props = length ?qs
      \<and> (\<forall>p \<in> set ?qs. map_of props (Parameter.Name p) = Some (schemaOfParameter p))"
    if dn: "distinct (map Parameter.Name ?qs)"
  proof
    have "length props = card (set (map fst props))" using distinct_card[OF d] by simp
    also have "\<dots> = card (set (map Parameter.Name ?qs))" using k by simp
    also have "\<dots> = length ?qs" using dn distinct_card[OF dn] by simp
    finally show "length props = length ?qs" .
    have de: "distinct (map fst (queryEntries ps))"
      using dn by (simp add: queryEntries_def comp_def)
    show "\<forall>p \<in> set ?qs. map_of props (Parameter.Name p) = Some (schemaOfParameter p)"
    proof
      fix p assume "p \<in> set ?qs"
      then have "(Parameter.Name p, schemaOfParameter p) \<in> set (queryEntries ps)"
        by (auto simp: queryEntries_def)
      moreover have "distinct (map fst (rev (queryEntries ps)))"
        using de by (simp add: rev_map[symmetric])
      ultimately show "map_of props (Parameter.Name p) = Some (schemaOfParameter p)"
        unfolding m by simp
    qed
  qed
  show "\<exists>schema props.
          BuildQuerySchema op parameters = Returns (Inr schema)
        \<and> Schema.Type schema = ''object''
        \<and> AdditionalProperties schema = VBool False
        \<and> Properties schema = Some props
        \<and> Schema.Required schema = requiredNames ps
        \<and> distinct (map fst props)
        \<and> set (map fst props) = Parameter.Name ` set (filter isQueryParameter ps)
        \<and> map_of props = map_of (rev (queryEntries ps))
        \<and> (distinct (map Parameter.Name (filter isQueryParameter ps)) \<longrightarrow>
              length props = length (filter isQueryParameter ps)
            \<and> (\<forall>p \<in> set (filter isQueryParameter ps).
                  map_of props (Parameter.Name p) = Some (schemaOfParameter p)))"
    apply (rule exI[of _ ?schema], rule exI[of _ props])
    using b d k m u by (simp add: TypeObject_def)
next
  assume a: "Operation.Parameters op = before @ param # after
        \<and> list_all2 (dereferenced parameters) before ps'
        \<and> Parameter.Ref param = ''#/components/parameters/'' @ name
        \<and> map_of parameters name = None"
  from a querySchemaLoop_resolved[of parameters before ps' "[]" "[]"] obtain props where
    l: "querySchemaLoop parameters before [] [] = Returns (Inr (props, requiredNames ps'))"
    by auto
  from a have "querySchemaLoop parameters (param # after) props (requiredNames ps') =
      Returns (Inl (invalidRef (Parameter.Ref param)))"
    by (intro querySchemaLoop_unresolved) auto
  with a l show "BuildQuerySchema op parameters = Returns (Inl (invalidRef (Parameter.Ref param)))"
    by (simp add: BuildQuerySchema_def querySchemaLoop_append)
qed

text \<open>
  An operation with a reference to a query parameter, a query parameter without a
  schema and a path parameter; and the case of \<open>TestBuildQuerySchema\<close> with a
  reference that does not resolve.
\<close>

definition refOperation :: Operation where
  "refOperation = \<lparr> Operation.Description = [], OperationID = [],
     Parameters = [\<lparr> Parameter.Description = [], In = [], Name = [], Required = False,
                     Schema = None, Ref = ''#/components/parameters/PageNum'' \<rparr>],
     RequestBody = None, Responses = [] \<rparr>"

definition filterParameter :: Parameter where
  "filterParameter = \<lparr> Parameter.Description = [], In = ''query'', Name = ''filter'',
     Required = False, Schema = None, Ref = [] \<rparr>"

definition idParameter :: Parameter where
  "idParameter = \<lparr> Parameter.Description = [], In = ''path'', Name = ''id'',
     Required = True, Schema = Some stringSchema, Ref = [] \<rparr>"

definition queryOperation :: Operation where
  "queryOperation = \<lparr> Operation.Description = [], OperationID = [],
     Parameters = [\<lparr> Parameter.Description = [], In = [], Name = [], Required = False,
                     Schema = None, Ref = ''#/components/parameters/PageNum'' \<rparr>,
                   filterParameter, idParameter],
     RequestBody = None, Responses = [] \<rparr>"

theorem BuildQuerySchema_properties_witness:
  "BuildQuerySchema queryOperation [(''PageNum'', pageNumParameter)] =
     Returns (Inr (Schema.Schema (VBool False) VNil [] [] [] None [] None 0 0 0 0 None False
       None []
       (Some [(''name'', stringSchema),
              (''filter'', Schema.Schema VNil VNil [] [] [] None [] None 0 0 0 0 None False None []
                 None [] ''object'' False False [] None None [])])
       [''name''] ''object'' False False [] None None []))
   \<and> BuildQuerySchema refOperation [] =
     Returns (Inl (invalidRef ''#/components/parameters/PageNum''))"
proof -
  let ?ps = "[pageNumParameter, filterParameter, idParameter]"
  have h1: "list_all2 (dereferenced [(''PageNum'', pageNumParameter)])
      (Operation.Parameters queryOperation) ?ps"
    by (simp add: queryOperation_def dereferenced_def filterParameter_def idParameter_def)
  have h2: "Operation.Parameters refOperation = [] @ hd (Operation.Parameters refOperation) # []
        \<and> list_all2 (dereferenced []) [] []
        \<and> Parameter.Ref (hd (Operation.Parameters refOperation)) = ''#/components/parameters/'' @ ''PageNum''
        \<and> map_of ([] :: (string \<times> Parameter) list) ''PageNum'' = None"
    by (simp add: refOperation_def)
  note t1 = BuildQuerySchema_properties[where parameters = "[(''PageNum'', pageNumParameter)]"
      and op = queryOperation and ps = ?ps, THEN conjunct1, rule_format, OF h1]
  note t2 = BuildQuerySchema_properties[where parameters = "[]" and op = refOperation
      and before = "[]" and param = "hd (Operation.Parameters refOperation)" and after = "[]"
      and ps' = "[]" and name = "''PageNum''", THEN conjunct2, rule_format, OF h2]
  have q: "filter isQueryParameter ?ps = [pageNumParameter, filterParameter]"
    by (simp add: isQueryParameter_def pageNumParameter_def filterParameter_def idParameter_def)
  have d: "distinct (map Parameter.Name (filter isQueryParameter ?ps))"
    unfolding q by (simp add: pageNumParameter_def filterParameter_def)
  from t1 obtain schema props where
    s: "BuildQuerySchema queryOperation [(''PageNum'', pageNumParameter)] = Returns (Inr schema)"
    and p: "Properties schema = Some props"
    and u: "distinct (map Parameter.Name (filter isQueryParameter ?ps)) \<longrightarrow>
              length props = length (filter isQueryParameter ?ps)
            \<and> (\<forall>p \<in> set (filter isQueryParameter ?ps).
                  map_of props (Parameter.Name p) = Some (schemaOfParameter p))"
    by blast
  from u d have "map_of props (Parameter.Name filterParameter) = Some (schemaOfParameter filterParameter)"
    unfolding q by simp
  then have f: "map_of props ''filter'' = Some (Schema.Schema VNil VNil [] [] [] None [] None 0 0 0 0
      None False None [] None [] ''object'' False False [] None None [])"
    by (simp add: filterParameter_def schemaOfParameter_def)
  have e: "BuildQuerySchema queryOperation [(''PageNum'', pageNumParameter)] =
     Returns (Inr (Schema.Schema (VBool False) VNil [] [] [] None [] None 0 0 0 0 None False
       None []
       (Some [(''name'', stringSchema),
              (''filter'', Schema.Schema VNil VNil [] [] [] None [] None 0 0 0 0 None False None []
                 None [] ''object'' False False [] None None [])])
       [''name''] ''object'' False False [] None None []))"
    by (simp add: BuildQuerySchema_def queryOperation_def SplitAfterN2_def pageNumParameter_def
        filterParameter_def idParameter_def ParameterQuery_def TypeObject_def Let_def
        typeObjectSchema_def)
  from t2 have "BuildQuerySchema refOperation [] = Returns (Inl (invalidRef ''#/components/parameters/PageNum''))"
    by (simp add: refOperation_def)
  with e s p f show ?thesis by simp
qed




section \<open>Expansions (server.go, parseExpansionLevel and extractExpansions)\<close>

text \<open>
  \<open>ExpansionLevel\<close>: the map \<open>expansions\<close> as an association list, and the wildcard
  bit. A nil \<open>*ExpansionLevel\<close> is \<open>None\<close>.
\<close>

datatype ExpansionLevel = ExpansionLevel
  (expansions: "(string \<times> ExpansionLevel) list")
  (wildcard: bool)

text \<open>
  The first loop of \<open>parseExpansionLevel\<close>, over the (sorted) raw expansions: it
  fills the level's \<open>expansions\<close> and \<open>wildcard\<close> and collects \<open>groups\<close>.
\<close>

fun parseLoop ::
  "string list \<Rightarrow> (string \<times> ExpansionLevel) list \<Rightarrow> bool \<Rightarrow> (string \<times> string list) list
     \<Rightarrow> (string \<times> ExpansionLevel) list \<times> bool \<times> (string \<times> string list) list" where
  "parseLoop [] exps wild groups = (exps, wild, groups)"
| "parseLoop (expansion # raw) exps wild groups =
     (let parts = Split expansion ''.'' in
      if length parts = 1 then
        (if parts ! 0 = ''*'' then parseLoop raw exps True groups
         else parseLoop raw (AList.update (parts ! 0) (ExpansionLevel [] False) exps) wild groups)
      else
        parseLoop raw exps wild
          (AList.update (parts ! 0)
             ((case map_of groups (parts ! 0) of None \<Rightarrow> [] | Some g \<Rightarrow> g) @ [Join (tl parts) ''.''])
             groups))"

text \<open>The measure of the recursion: the total length of the raw expansions.\<close>

definition weight :: "string list \<Rightarrow> nat" where
  "weight raw = sum_list (map (\<lambda>e. Suc (length e)) raw)"

lemma Join_tl_Split_less:
  assumes "length (Split e ''.'') \<noteq> 1"
  shows "Suc (length (Join (tl (Split e ''.'')) ''.'')) \<le> length e"
proof -
  have ne: "Split e ''.'' \<noteq> []" by (simp add: Split_def splitAcc_nonempty)
  with assms obtain a b bs where s: "Split e ''.'' = a # b # bs"
    by (cases "Split e ''.''"; cases "tl (Split e ''.'')") auto
  have "e = Join (Split e ''.'') ''.''" by (simp add: Join_Split)
  also have "\<dots> = a @ ''.'' @ Join (b # bs) ''.''" by (simp add: s)
  finally have "length e = length (a @ ''.'' @ Join (b # bs) ''.'')"
    by (rule arg_cong)
  then show ?thesis by (simp add: s)
qed

lemma in_set_update:
  "(k', v') \<in> set (AList.update k v al) \<Longrightarrow> (k' = k \<and> v' = v) \<or> (k', v') \<in> set al"
  by (induction al) (auto split: if_splits)

lemma map_of_Some_in_set: "map_of al k = Some v \<Longrightarrow> (k, v) \<in> set al"
  by (rule map_of_SomeD)

lemma parseLoop_groups:
  assumes "parseLoop raw exps wild groups = (exps', wild', groups')"
    and "(k, subs) \<in> set groups'"
  shows "\<exists>subs0 added. subs = subs0 @ added \<and> (subs0 = [] \<or> (k, subs0) \<in> set groups)
           \<and> ((k, subs) \<in> set groups \<or> added \<noteq> [])
           \<and> weight added \<le> sum_list (map length raw)"
  using assms
proof (induction raw exps wild groups arbitrary: subs rule: parseLoop.induct)
  case (1 exps wild groups)
  then show ?case by (auto simp: weight_def)
next
  case (2 expansion raw exps wild groups)
  let ?parts = "Split expansion ''.''"
  show ?case
  proof (cases "length ?parts = 1")
    case True
    show ?thesis
    proof (cases "?parts ! 0 = ''*''")
      case star: True
      from "2.prems" True star have "parseLoop raw exps True groups = (exps', wild', groups')"
        by (simp add: Let_def)
      from "2.IH"(1)[OF refl True star this "2.prems"(2)]
      obtain subs0 added where "subs = subs0 @ added" "subs0 = [] \<or> (k, subs0) \<in> set groups"
        "(k, subs) \<in> set groups \<or> added \<noteq> []" "weight added \<le> sum_list (map length raw)"
        by blast
      then show ?thesis
        by (intro exI[of _ subs0] exI[of _ added]) simp
    next
      case nostar: False
      from "2.prems" True nostar
      have "parseLoop raw (AList.update (?parts ! 0) (ExpansionLevel [] False) exps) wild groups
          = (exps', wild', groups')"
        by (simp add: Let_def)
      from "2.IH"(2)[OF refl True nostar this "2.prems"(2)]
      obtain subs0 added where "subs = subs0 @ added" "subs0 = [] \<or> (k, subs0) \<in> set groups"
        "(k, subs) \<in> set groups \<or> added \<noteq> []" "weight added \<le> sum_list (map length raw)"
        by blast
      then show ?thesis
        by (intro exI[of _ subs0] exI[of _ added]) simp
    qed
  next
    case False
    let ?old = "case map_of groups (?parts ! 0) of None \<Rightarrow> [] | Some g \<Rightarrow> g"
    let ?sub = "Join (tl ?parts) ''.''"
    let ?groups = "AList.update (?parts ! 0) (?old @ [?sub]) groups"
    from "2.prems" False have "parseLoop raw exps wild ?groups = (exps', wild', groups')"
      by (simp add: Let_def)
    from "2.IH"(3)[OF refl False this "2.prems"(2)]
    obtain subs0 added where sa: "subs = subs0 @ added"
      and s0: "subs0 = [] \<or> (k, subs0) \<in> set ?groups"
      and ad: "(k, subs) \<in> set ?groups \<or> added \<noteq> []"
      and w: "weight added \<le> sum_list (map length raw)"
      by blast
    have old: "?old = [] \<or> (?parts ! 0, ?old) \<in> set groups"
      by (auto split: option.splits dest: map_of_SomeD)
    have sl: "Suc (length ?sub) \<le> length expansion" by (rule Join_tl_Split_less[OF False])
    show ?thesis
    proof (cases "subs0 = [] \<or> (k, subs0) \<in> set groups")
      case True
      show ?thesis
      proof (cases "(k, subs) \<in> set groups \<or> added \<noteq> []")
        case True
        with \<open>subs0 = [] \<or> (k, subs0) \<in> set groups\<close> sa w show ?thesis
          by (intro exI[of _ subs0] exI[of _ added]) auto
      next
        case False
        with ad have "(k, subs) \<in> set ?groups" and "added = []" and "(k, subs) \<notin> set groups" by auto
        then have "k = ?parts ! 0" and "subs = ?old @ [?sub]" by (auto dest: in_set_update)
        with old sl show ?thesis
          by (intro exI[of _ ?old] exI[of _ "[?sub]"]) (auto simp: weight_def)
      qed
    next
      case False
      with s0 have "(k, subs0) \<in> set ?groups" and "(k, subs0) \<notin> set groups" by auto
      then have k: "k = ?parts ! 0" and s0': "subs0 = ?old @ [?sub]" by (auto dest: in_set_update)
      have "subs = ?old @ ([?sub] @ added)" using sa s0' by simp
      moreover have "weight ([?sub] @ added) \<le> sum_list (map length (expansion # raw))"
        using w sl by (simp add: weight_def)
      ultimately show ?thesis using old k
        by (intro exI[of _ ?old] exI[of _ "[?sub] @ added"]) auto
    qed
  qed
qed

lemma parseLoop_groups_weight:
  assumes "parseLoop raw exps wild [] = (exps', wild', groups')"
    and "(k, subs) \<in> set groups'"
  shows "weight subs < weight raw"
proof -
  from parseLoop_groups[OF assms] have w: "weight subs \<le> sum_list (map length raw)" by auto
  from assms have "raw \<noteq> []" by (cases raw) auto
  moreover have "sum_list (map length raw) + length raw = weight raw"
    by (induction raw) (auto simp: weight_def)
  ultimately have "sum_list (map length raw) < weight raw"
    by (cases raw) auto
  with w show ?thesis by simp
qed

lemma weight_sort: "weight (sort raw) = weight raw"
  by (simp only: weight_def sum_mset_sum_list[symmetric] mset_map mset_sort)

text \<open>
  \<open>parseExpansionLevel\<close>: \<open>sort.Strings\<close>, the first loop, and the second loop over
  the groups (in one iteration order), which sets \<open>level.expansions[key]\<close> to the
  level parsed from the group.
\<close>

function parseExpansionLevel :: "string list \<Rightarrow> ExpansionLevel" where
  "parseExpansionLevel raw =
     (case parseLoop (sort raw) [] False [] of
        (exps, wild, groups) \<Rightarrow>
          ExpansionLevel
            (foldl (\<lambda>acc (key, level). AList.update key level acc) exps
               (map (\<lambda>(key, subexpansions). (key, parseExpansionLevel subexpansions)) groups))
            wild)"
  by pat_completeness auto
termination
  apply (relation "measure weight")
   apply simp
  apply (auto dest!: parseLoop_groups_weight[OF sym] simp: weight_sort)
  done


declare parseExpansionLevel.simps [simp del]

text \<open>
  The loop of \<open>extractExpansions\<close> over a list value: \<open>expand.(string)\<close> is an
  unchecked type assertion and panics on an element that is not a string (\<open>None\<close>).
\<close>

fun assertStrings :: "val list \<Rightarrow> string list option" where
  "assertStrings [] = Some []"
| "assertStrings (VStr expandStr # expandArr) = map_option (Cons expandStr) (assertStrings expandArr)"
| "assertStrings (_ # expandArr) = None"

text \<open>
  \<open>extractExpansions\<close> returns the parsed level (\<open>None\<close> is nil) and the raw
  expansions, which \<open>parseExpansionLevel\<close> has sorted in place.
\<close>

definition extractExpansions ::
  "(string \<times> val) list \<Rightarrow> (ExpansionLevel option \<times> string list) outcome" where
  "extractExpansions data =
     (case map_of data ''expand'' of
        None \<Rightarrow> Returns (None, [])
      | Some (VStr expandStr) \<Rightarrow> Returns (Some (parseExpansionLevel [expandStr]), sort [expandStr])
      | Some (VSlice expandArr) \<Rightarrow>
          (case assertStrings expandArr of
             None \<Rightarrow> Panics
           | Some raw \<Rightarrow> Returns (Some (parseExpansionLevel raw), sort raw))
      | Some _ \<Rightarrow> Returns (None, []))"

lemma assertStrings_strings: "assertStrings (map VStr raw) = Some raw"
  by (induction raw) auto

lemma extractExpansions_rules:
  "(map_of data ''expand'' = None \<longrightarrow> extractExpansions data = Returns (None, []))
   \<and> (map_of data ''expand'' = Some (VStr expandStr) \<longrightarrow>
        extractExpansions data = Returns (Some (parseExpansionLevel [expandStr]), [expandStr]))
   \<and> (map_of data ''expand'' = Some (VSlice (map VStr raw)) \<longrightarrow>
        extractExpansions data = Returns (Some (parseExpansionLevel raw), sort raw))
   \<and> (map_of data ''expand'' = Some v \<and> (\<forall>e. v \<noteq> VStr e) \<and> (\<forall>es. v \<noteq> VSlice es) \<longrightarrow>
        extractExpansions data = Returns (None, []))"
  by (cases v) (auto simp: extractExpansions_def assertStrings_strings)

text \<open>
  Claim C10 at the decoded request \<open>{"expand": [1]}\<close>: the list under \<open>expand\<close> holds
  a number (a \<open>float64\<close> after decoding), the unchecked assertion \<open>expand.(string)\<close>
  in the loop fails, and \<open>extractExpansions\<close> panics.
\<close>

theorem extractExpansions_non_string_element:
  "extractExpansions [(''expand'', VSlice [VFloat 1])] = Panics"
  by (simp add: extractExpansions_def)




section \<open>The generator (generator.go)\<close>

text \<open>
  \<open>Schema.ResolveRef\<close>: the schema itself when it carries no reference, otherwise
  the schema of that name; an error when there is none. \<open>schemaName[1]\<close> panics when
  the reference does not contain \<open>#/components/schemas/\<close>.
\<close>

datatype genError = ExpansionNotSupported | UnresolvedRef string

definition ResolveRef :: "Schema \<Rightarrow> (string \<times> Schema) list \<Rightarrow> (genError + Schema) outcome" where
  "ResolveRef s schemas =
     (if Schema.Ref s = [] then Returns (Inr s)
      else let schemaName = SplitAfterN2 (Schema.Ref s) ''#/components/schemas/'' in
        if length schemaName < 2 then Panics
        else case map_of schemas (schemaName ! 1) of
               Some found \<Rightarrow> Returns (Inr found)
             | None \<Rightarrow> Returns (Inl (UnresolvedRef (Schema.Ref s))))"

text \<open>
  \<open>sort.SearchStrings(a, x)\<close>: the binary search of Go's \<open>sort.Search\<close> with the
  predicate \<open>a[h] >= x\<close>. On a sorted slice its result is the least index whose
  element is not below \<open>x\<close>, and the length when every element is below \<open>x\<close>.
\<close>

function searchLoop :: "string list \<Rightarrow> string \<Rightarrow> nat \<Rightarrow> nat \<Rightarrow> nat" where
  "searchLoop a x i j =
     (if i < j then
        (let h = (i + j) div 2 in
         if \<not> (x \<le> a ! h) then searchLoop a x (h + 1) j else searchLoop a x i h)
      else i)"
  by pat_completeness auto
termination
  by (relation "measure (\<lambda>(a, x, i, j). j - i)") auto

declare searchLoop.simps [simp del]

definition SearchStrings :: "string list \<Rightarrow> string \<Rightarrow> nat" where
  "SearchStrings a x = searchLoop a x 0 (length a)"

text \<open>
  The parameters of one level of generation. \<open>example\<close> is \<open>None\<close> when there is no
  sample and \<open>Some v\<close> for a \<open>valueWrapper\<close> holding \<open>v\<close> (\<open>Some VNil\<close> is a sample that
  is null). The field \<open>context\<close>, a trail for error messages, is left out.
\<close>

record GenerateParams =
  Expansions :: "ExpansionLevel option"
  PathParams :: "PathParamsMap option"
  RequestData :: "(string \<times> val) list"
  RequestMethod :: string
  RequestPath :: string
  WrapWithList :: bool
  schema :: Schema
  example :: "val option"

record DataGenerator =
  definitions :: "(string \<times> Schema) list"
  fixtures :: "(string \<times> val) list"

text \<open>
  A result of the generator: \<open>None\<close> when the fuel of the recursion is used up
  (schemas may refer to each other in a cycle, and then the program does not
  return); otherwise a panic or the pair Go returns, an error or the value.
\<close>

type_synonym genResult = "(genError + val) outcome option"

definition isDeletedResource :: "Schema \<Rightarrow> bool" where
  "isDeletedResource s = (case Properties s of None \<Rightarrow> False | Some props \<Rightarrow> map_of props ''deleted'' \<noteq> None)"

text \<open>\<open>object.Enum[0]\<close> panics when \<open>enum\<close> is present and empty.\<close>

definition isListResource :: "Schema \<Rightarrow> bool outcome" where
  "isListResource s =
     (if Schema.Type s \<noteq> ''object'' then Returns False
      else case Properties s of
        None \<Rightarrow> Returns False
      | Some props \<Rightarrow>
          (case map_of props ''object'' of
             None \<Rightarrow> Returns False
           | Some object \<Rightarrow>
               (case Enum object of
                  None \<Rightarrow> Returns False
                | Some [] \<Rightarrow> Panics
                | Some (e # _) \<Rightarrow>
                    if e \<noteq> VStr ''list'' then Returns False
                    else (case map_of props ''data'' of
                            None \<Rightarrow> Returns False
                          | Some data \<Rightarrow> Returns (Items data \<noteq> None)))))"

fun findAnyOfBranch ::
  "(string \<times> Schema) list \<Rightarrow> Schema list \<Rightarrow> bool \<Rightarrow> (genError + Schema option) outcome" where
  "findAnyOfBranch defs [] deleted = Returns (Inr None)"
| "findAnyOfBranch defs (anyOfSchema # rest) deleted =
     (case ResolveRef anyOfSchema defs of
        Panics \<Rightarrow> Panics
      | Returns (Inl err) \<Rightarrow> Returns (Inl err)
      | Returns (Inr resolved) \<Rightarrow>
          if deleted = isDeletedResource resolved then Returns (Inr (Some resolved))
          else findAnyOfBranch defs rest deleted)"

text \<open>
  \<open>generateSyntheticFixture\<close>. \<open>self\<close> stands for the recursive calls; the loops
  over \<open>anyOf\<close> and over the properties are written out. A map that a loop fills
  key by key is built in the order of the loop (the keys of a Go map are distinct).
\<close>

fun firstWithoutRef :: "Schema list \<Rightarrow> Schema option" where
  "firstWithoutRef [] = None"
| "firstWithoutRef (subSchema # rest) =
     (if Schema.Ref subSchema \<noteq> [] then firstWithoutRef rest else Some subSchema)"

fun syntheticProperties ::
  "(Schema \<Rightarrow> val outcome option) \<Rightarrow> (string \<times> Schema) list \<Rightarrow> (string \<times> val) list outcome option" where
  "syntheticProperties self [] = Some (Returns [])"
| "syntheticProperties self ((property, subSchema) # props) =
     (case self subSchema of
        None \<Rightarrow> None
      | Some Panics \<Rightarrow> Some Panics
      | Some (Returns v) \<Rightarrow>
          (case syntheticProperties self props of
             None \<Rightarrow> None
           | Some Panics \<Rightarrow> Some Panics
           | Some (Returns fixture) \<Rightarrow> Some (Returns ((property, v) # fixture))))"

definition syntheticStep ::
  "(string \<times> Schema) list \<Rightarrow> (Schema \<Rightarrow> val outcome option) \<Rightarrow> Schema \<Rightarrow> val outcome option" where
  "syntheticStep defs self s =
     (case Example s of
        Some raw \<Rightarrow> Some (Returns (VRaw raw))
      | None \<Rightarrow>
          if Nullable s then Some (Returns VNil)
          else if Schema.Ref s \<noteq> [] then
            (case ResolveRef s defs of
               Panics \<Rightarrow> Some Panics
             | Returns (Inl err) \<Rightarrow> Some Panics
             | Returns (Inr resolved) \<Rightarrow> self resolved)
          else if (case Enum s of None \<Rightarrow> False | Some es \<Rightarrow> es \<noteq> []) then
            Some (Returns (hd (the (Enum s))))
          else if AnyOf s \<noteq> [] then
            (case firstWithoutRef (AnyOf s) of
               None \<Rightarrow> Some Panics
             | Some subSchema \<Rightarrow> self subSchema)
          else if Schema.Type s = TypeArray then Some (Returns (VStrSlice []))
          else if Schema.Type s = TypeBoolean then Some (Returns (VBool True))
          else if Schema.Type s = TypeInteger then Some (Returns (VInt 0))
          else if Schema.Type s = TypeNumber then Some (Returns (VFloat 0))
          else if Schema.Type s = TypeObject then
            (case syntheticProperties self (case Properties s of None \<Rightarrow> [] | Some props \<Rightarrow> props) of
               None \<Rightarrow> None
             | Some Panics \<Rightarrow> Some Panics
             | Some (Returns fixture) \<Rightarrow> Some (Returns (VMap fixture)))
          else if Schema.Type s = TypeString then Some (Returns (VStr []))
          else Some Panics)"

primrec generateSyntheticFixture ::
  "nat \<Rightarrow> (string \<times> Schema) list \<Rightarrow> Schema \<Rightarrow> val outcome option" where
  "generateSyntheticFixture 0 defs = (\<lambda>s. None)"
| "generateSyntheticFixture (Suc n) defs = syntheticStep defs (generateSyntheticFixture n defs)"


text \<open>
  The parameters of a nested call: every recursive call builds a fresh
  \<open>GenerateParams\<close> that takes over the request method and path, has no path
  parameters, and leaves the other fields at their zero values.
\<close>

definition childParams ::
  "GenerateParams \<Rightarrow> ExpansionLevel option \<Rightarrow> Schema \<Rightarrow> val option \<Rightarrow> GenerateParams" where
  "childParams params exps sub subExample =
     \<lparr> Expansions = exps, PathParams = None, RequestData = [],
       RequestMethod = RequestMethod params, RequestPath = RequestPath params,
       WrapWithList = False, schema = sub, example = subExample \<rparr>"

text \<open>
  \<open>generateListResource\<close>. \<open>self\<close> stands for \<open>generateInternal\<close>. The value of
  one property of the envelope is \<open>listValue\<close>; in the \<open>url\<close> case the two unchecked
  type assertions on the example panic when the example is not an object with a
  string \<open>url\<close>.
\<close>

definition listValue :: "GenerateParams \<Rightarrow> val \<Rightarrow> string \<Rightarrow> Schema \<Rightarrow> val outcome" where
  "listValue params itemData key subSchema =
     (if key = ''data'' then Returns (VSlice [itemData])
      else if key = ''has_more'' then Returns (VBool False)
      else if key = ''object'' then Returns (VStr ''list'')
      else if key = ''total_count'' then Returns (VInt 1)
      else if key = ''url'' then
        (if HasPrefix (Pattern subSchema) ''^'' then Returns (VStr (drop 1 (Pattern subSchema)))
         else case example params of
                Some (VMap exampleMap) \<Rightarrow>
                  (case map_of exampleMap ''url'' of
                     Some (VStr url) \<Rightarrow> Returns (VStr url)
                   | _ \<Rightarrow> Panics)
              | Some _ \<Rightarrow> Panics
              | None \<Rightarrow> Returns (VStr (RequestPath params)))
      else Returns VNil)"

fun listProperties ::
  "GenerateParams \<Rightarrow> val \<Rightarrow> (string \<times> Schema) list \<Rightarrow> (string \<times> val) list outcome" where
  "listProperties params itemData [] = Returns []"
| "listProperties params itemData ((key, subSchema) # props) =
     (case listValue params itemData key subSchema of
        Panics \<Rightarrow> Panics
      | Returns v \<Rightarrow>
          (case listProperties params itemData props of
             Panics \<Rightarrow> Panics
           | Returns listData \<Rightarrow> Returns ((key, v) # listData)))"

definition generateListResource :: "(GenerateParams \<Rightarrow> genResult) \<Rightarrow> GenerateParams \<Rightarrow> genResult" where
  "generateListResource self params =
     (let itemExpansions =
            (case Expansions params of
               None \<Rightarrow> None
             | Some level \<Rightarrow> map_of (expansions level) ''data'');
          props = (case Properties (schema params) of None \<Rightarrow> [] | Some ps \<Rightarrow> ps)
      in case map_of props ''data'' of
           None \<Rightarrow> Some Panics
         | Some data \<Rightarrow>
             (case Items data of
                None \<Rightarrow> Some Panics
              | Some items \<Rightarrow>
                  (case self (childParams params itemExpansions items None) of
                     None \<Rightarrow> None
                   | Some Panics \<Rightarrow> Some Panics
                   | Some (Returns (Inl err)) \<Rightarrow> Some (Returns (Inl err))
                   | Some (Returns (Inr itemData)) \<Rightarrow>
                       (case listProperties params itemData props of
                          Panics \<Rightarrow> Some Panics
                        | Returns listData \<Rightarrow> Some (Returns (Inr (VMap listData)))))))"

text \<open>
  The loop of \<open>generateInternal\<close> over the properties of an object schema, with the
  example \<open>exampleMap\<close>.
\<close>

definition subExpansionsOf :: "ExpansionLevel option \<Rightarrow> string \<Rightarrow> ExpansionLevel option" where
  "subExpansionsOf exps key =
     (case exps of
        None \<Rightarrow> None
      | Some level \<Rightarrow>
          (case map_of (expansions level) key of
             Some sub \<Rightarrow> Some sub
           | None \<Rightarrow> if wildcard level then Some (ExpansionLevel [] False) else None))"

fun walkProperties ::
  "(GenerateParams \<Rightarrow> genResult) \<Rightarrow> GenerateParams \<Rightarrow> (string \<times> val) list
     \<Rightarrow> (string \<times> Schema) list \<Rightarrow> (genError + (string \<times> val) list) outcome option" where
  "walkProperties self params exampleMap [] = Some (Returns (Inr []))"
| "walkProperties self params exampleMap ((key, subSchema) # props) =
     (let subExpansions = subExpansionsOf (Expansions params) key in
      if map_of exampleMap key = None \<and> subExpansions = None
      then walkProperties self params exampleMap props
      else case self (childParams params subExpansions subSchema (map_of exampleMap key)) of
             None \<Rightarrow> None
           | Some Panics \<Rightarrow> Some Panics
           | Some (Returns (Inl err)) \<Rightarrow> Some (Returns (Inl err))
           | Some (Returns (Inr subValue)) \<Rightarrow>
               (case walkProperties self params exampleMap props of
                  None \<Rightarrow> None
                | Some Panics \<Rightarrow> Some Panics
                | Some (Returns (Inl err)) \<Rightarrow> Some (Returns (Inl err))
                | Some (Returns (Inr resultMap)) \<Rightarrow> Some (Returns (Inr ((key, subValue) # resultMap)))))"

text \<open>
  The test of \<open>generateInternal\<close> whether the requested expansions are possible:
  it fails for a key when \<open>sort.SearchStrings\<close> returns the length of
  \<open>x-expandableFields\<close>.
\<close>

definition expansionsRefused :: "ExpansionLevel option \<Rightarrow> Schema \<Rightarrow> bool" where
  "expansionsRefused exps s =
     (case exps of
        None \<Rightarrow> False
      | Some level \<Rightarrow>
          (case XExpandableFields s of
             None \<Rightarrow> False
           | Some expandable \<Rightarrow>
               list_ex (\<lambda>(key, sub). SearchStrings expandable key = length expandable)
                 (expansions level)))"

text \<open>
  \<open>generateInternal\<close> from the point where the example is settled (line 292 on):
  \<open>s\<close> is the resolved schema, \<open>ex\<close> the example.
\<close>

definition generateWithExample ::
  "DataGenerator \<Rightarrow> (GenerateParams \<Rightarrow> genResult) \<Rightarrow> (Schema \<Rightarrow> val outcome option)
     \<Rightarrow> GenerateParams \<Rightarrow> Schema \<Rightarrow> val option \<Rightarrow> genResult" where
  "generateWithExample g self synthetic params s ex =
     (let recurse = (\<lambda>sub subExample. self (childParams params (Expansions params) sub subExample))
      in
      if XExpansionResources s \<noteq> None then
        (if Expansions params \<noteq> None then
           (case OneOfs (the (XExpansionResources s)) of
              [] \<Rightarrow> Some Panics
            | first # _ \<Rightarrow> recurse first None)
         else
           (case AnyOf s of
              [] \<Rightarrow> Some Panics
            | first # _ \<Rightarrow> recurse first ex))
      else if length (AnyOf s) = 1 \<and> Nullable s \<and> \<not> (ex = Some VNil) then
        recurse (hd (AnyOf s)) ex
      else if length (AnyOf s) = 1 \<and> Nullable s \<and> Expansions params = None then
        Some (Returns (Inr VNil))
      else if length (AnyOf s) \<noteq> 0 then
        (case findAnyOfBranch (definitions g) (AnyOf s) (RequestMethod params = ''DELETE'') of
           Panics \<Rightarrow> Some Panics
         | Returns (Inl err) \<Rightarrow> Some (Returns (Inl err))
         | Returns (Inr (Some anyOfSchema)) \<Rightarrow> recurse anyOfSchema None
         | Returns (Inr None) \<Rightarrow> recurse (hd (AnyOf s)) None)
      else if length (OneOf s) > 0 then
        recurse (hd (OneOf s)) ex
      else case isListResource s of
        Panics \<Rightarrow> Some Panics
      | Returns True \<Rightarrow>
          generateListResource self (childParams params (Expansions params) s ex)
      | Returns False \<Rightarrow>
          (let synthesized =
                 (if ex = None \<and> XResourceID s = [] then
                    (case synthetic s of
                       None \<Rightarrow> None
                     | Some Panics \<Rightarrow> Some Panics
                     | Some (Returns v) \<Rightarrow> Some (Returns (Some v)))
                  else Some (Returns ex))
           in case synthesized of
                None \<Rightarrow> None
              | Some Panics \<Rightarrow> Some Panics
              | Some (Returns None) \<Rightarrow> Some Panics
              | Some (Returns (Some VNil)) \<Rightarrow>
                  if Expansions params \<noteq> None then Some Panics else Some (Returns (Inr VNil))
              | Some (Returns (Some v)) \<Rightarrow>
                  if (case Enum s of None \<Rightarrow> False | Some es \<Rightarrow> es \<noteq> []) then Some (Returns (Inr v))
                  else if Schema.Type s = ''boolean'' \<or> Schema.Type s = ''integer''
                          \<or> Schema.Type s = ''number'' \<or> Schema.Type s = ''string''
                    then Some (Returns (Inr v))
                  else if Schema.Type s = ''object'' \<and> Properties s = None then Some (Returns (Inr v))
                  else if Schema.Type s = ''array'' then Some (Returns (Inr v))
                  else if (Schema.Type s = ''object'' \<or> Schema.Type s = []) \<and> Properties s \<noteq> None then
                    (case v of
                       VMap exampleMap \<Rightarrow>
                         (case walkProperties self params exampleMap (the (Properties s)) of
                            None \<Rightarrow> None
                          | Some Panics \<Rightarrow> Some Panics
                          | Some (Returns (Inl err)) \<Rightarrow> Some (Returns (Inl err))
                          | Some (Returns (Inr resultMap)) \<Rightarrow> Some (Returns (Inr (VMap resultMap))))
                     | _ \<Rightarrow> Some Panics)
                  else Some Panics))"

text \<open>
  \<open>generateInternal\<close> up to there: resolving the reference, the test of the
  expansions, and the adoption of a fixture as the example.
\<close>

definition generateStep ::
  "DataGenerator \<Rightarrow> (GenerateParams \<Rightarrow> genResult) \<Rightarrow> (Schema \<Rightarrow> val outcome option)
     \<Rightarrow> GenerateParams \<Rightarrow> genResult" where
  "generateStep g self synthetic params =
     (case ResolveRef (schema params) (definitions g) of
        Panics \<Rightarrow> Some Panics
      | Returns (Inl err) \<Rightarrow> Some (Returns (Inl err))
      | Returns (Inr s) \<Rightarrow>
          if expansionsRefused (Expansions params) s then Some (Returns (Inl ExpansionNotSupported))
          else if (example params = None \<or> example params = Some VNil) \<and> XResourceID s \<noteq> [] then
            (case map_of (DataGenerator.fixtures g) (XResourceID s) of
               None \<Rightarrow> Some Panics
             | Some fixture \<Rightarrow> generateWithExample g self synthetic params s (Some fixture))
          else generateWithExample g self synthetic params s (example params))"

text \<open>
  The recursion, with fuel: \<open>generateInternal n\<close> follows the program through at
  most \<open>n\<close> nested calls.
\<close>

primrec generateInternal :: "nat \<Rightarrow> DataGenerator \<Rightarrow> GenerateParams \<Rightarrow> genResult" where
  "generateInternal 0 g = (\<lambda>params. None)"
| "generateInternal (Suc n) g =
     generateStep g (generateInternal n g) (generateSyntheticFixture n (definitions g))"


section \<open>Facts about the generator\<close>

lemma searchLoop_sorted:
  assumes "sorted a" and "i \<le> j" and "j \<le> length a"
    and "\<forall>k<i. a ! k < x" and "\<forall>k. j \<le> k \<and> k < length a \<longrightarrow> x \<le> a ! k"
  shows "(\<forall>k < searchLoop a x i j. a ! k < x)
       \<and> (\<forall>k. searchLoop a x i j \<le> k \<and> k < length a \<longrightarrow> x \<le> a ! k)
       \<and> searchLoop a x i j \<le> length a"
  using assms
proof (induction a x i j rule: searchLoop.induct)
  case (1 a x i j)
  show ?case
  proof (cases "i < j")
    case False
    with "1.prems" have ij: "i = j" by simp
    have "searchLoop a x i j = i" using False by (subst searchLoop.simps) simp
    with "1.prems" ij show ?thesis by simp
  next
    case True
    let ?h = "(i + j) div 2"
    from True have h: "i \<le> ?h" "?h < j" by auto
    show ?thesis
    proof (cases "x \<le> a ! ?h")
      case False
      then have lt: "a ! ?h < x" by simp
      have below: "\<forall>k < ?h + 1. a ! k < x"
      proof (intro allI impI)
        fix k assume "k < ?h + 1"
        then have "k \<le> ?h" by simp
        with "1.prems"(1,3) h have "a ! k \<le> a ! ?h" by (intro sorted_nth_mono) auto
        with lt show "a ! k < x" by simp
      qed
      have "searchLoop a x i j = searchLoop a x (?h + 1) j"
        using True False by (simp add: searchLoop.simps[of a x i j] Let_def)
      moreover from "1.IH"(1)[OF True refl False "1.prems"(1) _ "1.prems"(3) below "1.prems"(5)] h
      have "(\<forall>k < searchLoop a x (?h + 1) j. a ! k < x)
       \<and> (\<forall>k. searchLoop a x (?h + 1) j \<le> k \<and> k < length a \<longrightarrow> x \<le> a ! k)
       \<and> searchLoop a x (?h + 1) j \<le> length a" by simp
      ultimately show ?thesis by simp
    next
      case ge: True
      have above: "\<forall>k. ?h \<le> k \<and> k < length a \<longrightarrow> x \<le> a ! k"
      proof (intro allI impI)
        fix k assume "?h \<le> k \<and> k < length a"
        with "1.prems"(1) have "a ! ?h \<le> a ! k" by (intro sorted_nth_mono) auto
        with ge show "x \<le> a ! k" by simp
      qed
      have "searchLoop a x i j = searchLoop a x i ?h"
        using True ge by (simp add: searchLoop.simps[of a x i j] Let_def)
      moreover from "1.IH"(2)[OF True refl _ "1.prems"(1) _ _ "1.prems"(4) above] ge h "1.prems"(3)
      have "(\<forall>k < searchLoop a x i ?h. a ! k < x)
       \<and> (\<forall>k. searchLoop a x i ?h \<le> k \<and> k < length a \<longrightarrow> x \<le> a ! k)
       \<and> searchLoop a x i ?h \<le> length a" by simp
      ultimately show ?thesis by simp
    qed
  qed
qed

text \<open>
  On a sorted \<open>x-expandableFields\<close>, the test refuses a key exactly when the key is
  above every field. A key that is not a field but below some field passes.
\<close>

lemma SearchStrings_refuses_iff:
  assumes "sorted a"
  shows "SearchStrings a x = length a \<longleftrightarrow> (\<forall>f \<in> set a. f < x)"
proof -
  have "(\<forall>k < searchLoop a x 0 (length a). a ! k < x)
       \<and> (\<forall>k. searchLoop a x 0 (length a) \<le> k \<and> k < length a \<longrightarrow> x \<le> a ! k)
       \<and> searchLoop a x 0 (length a) \<le> length a"
    by (rule searchLoop_sorted) (use assms in auto)
  then have r: "\<forall>k < SearchStrings a x. a ! k < x"
    "\<forall>k. SearchStrings a x \<le> k \<and> k < length a \<longrightarrow> x \<le> a ! k"
    "SearchStrings a x \<le> length a"
    by (simp_all add: SearchStrings_def)
  show ?thesis
  proof
    assume "SearchStrings a x = length a"
    with r(1) show "\<forall>f \<in> set a. f < x" by (auto simp: in_set_conv_nth)
  next
    assume all: "\<forall>f \<in> set a. f < x"
    show "SearchStrings a x = length a"
    proof (rule ccontr)
      assume "SearchStrings a x \<noteq> length a"
      with r(3) have lt: "SearchStrings a x < length a" by simp
      with r(2) have "x \<le> a ! SearchStrings a x" by simp
      moreover from all lt have "a ! SearchStrings a x < x" by simp
      ultimately show False by simp
    qed
  qed
qed

section \<open>Example schemas\<close>

definition plainSchema :: "string \<Rightarrow> Schema" where
  "plainSchema t = Schema.Schema VNil VNil [] [] [] None [] None 0 0 0 0 None False None []
     None [] t False False [] None None []"

definition objectSchema :: "(string \<times> Schema) list \<Rightarrow> string list option \<Rightarrow> Schema" where
  "objectSchema props expandable = Schema.Schema VNil VNil [] [] [] None [] None 0 0 0 0 None False None []
     (Some props) [] ''object'' False False [] expandable None []"

definition topParams :: "ExpansionLevel option \<Rightarrow> Schema \<Rightarrow> val option \<Rightarrow> GenerateParams" where
  "topParams exps s ex =
     \<lparr> Expansions = exps, PathParams = None, RequestData = [], RequestMethod = ''GET'',
       RequestPath = ''/v2/things'', WrapWithList = False, schema = s, example = ex \<rparr>"

definition noDefinitions :: DataGenerator where
  "noDefinitions = \<lparr> definitions = [], fixtures = [] \<rparr>"

text \<open>
  Claim C2 at a schema with properties \<open>a\<close> and \<open>b\<close> and \<open>x-expandableFields = [b]\<close>,
  an example for it, and the requested expansion \<open>a\<close>: \<open>a\<close> is not an expandable
  field, yet \<open>generateInternal\<close> does not fail, it returns the generated object. The
  test uses \<open>sort.SearchStrings\<close>, which gives the position where the key would be
  inserted, and compares it with the length; it only refuses a key that is above
  every expandable field, as the requested expansion \<open>c\<close> is.
\<close>

theorem generateInternal_accepts_unexpandable_key:
  "generateInternal 2 noDefinitions
     (topParams (Some (ExpansionLevel [(''a'', ExpansionLevel [] False)] False))
        (objectSchema [(''a'', plainSchema ''string''), (''b'', plainSchema ''string'')] (Some [''b'']))
        (Some (VMap [(''a'', VStr ''x''), (''b'', VStr ''y'')])))
     = Some (Returns (Inr (VMap [(''a'', VStr ''x''), (''b'', VStr ''y'')])))
   \<and> ''a'' \<notin> set [''b'']
   \<and> generateInternal 2 noDefinitions
     (topParams (Some (ExpansionLevel [(''c'', ExpansionLevel [] False)] False))
        (objectSchema [(''a'', plainSchema ''string''), (''b'', plainSchema ''string'')] (Some [''b'']))
        (Some (VMap [(''a'', VStr ''x''), (''b'', VStr ''y'')])))
     = Some (Returns (Inl ExpansionNotSupported))"
  by code_simp





section \<open>List envelopes\<close>

text \<open>
  The value the specification gives to a declared property of a list envelope:
  \<open>data\<close> is the one generated item, \<open>has_more\<close> is false, \<open>object\<close> is \<open>list\<close>,
  \<open>total_count\<close> is 1, \<open>url\<close> is the pattern of the property without its leading
  \<open>^\<close>, else the url of the example, else the request path, and any other property
  is null.
\<close>

definition envelopeValue :: "val option \<Rightarrow> string \<Rightarrow> val \<Rightarrow> string \<Rightarrow> Schema \<Rightarrow> val" where
  "envelopeValue ex requestPath itemData key subSchema =
     (if key = ''data'' then VSlice [itemData]
      else if key = ''has_more'' then VBool False
      else if key = ''object'' then VStr ''list''
      else if key = ''total_count'' then VInt 1
      else if key = ''url'' then
        VStr (if prefix ''^'' (Pattern subSchema) then tl (Pattern subSchema)
              else case ex of
                     Some (VMap exampleMap) \<Rightarrow>
                       (case map_of exampleMap ''url'' of Some (VStr url) \<Rightarrow> url | _ \<Rightarrow> requestPath)
                   | _ \<Rightarrow> requestPath)
      else VNil)"

text \<open>
  The example can supply the url: there is no example, or it is an object with a
  string \<open>url\<close>.
\<close>

definition exampleHasURL :: "val option \<Rightarrow> bool" where
  "exampleHasURL ex =
     (case ex of
        None \<Rightarrow> True
      | Some (VMap exampleMap) \<Rightarrow> (case map_of exampleMap ''url'' of Some (VStr url) \<Rightarrow> True | _ \<Rightarrow> False)
      | Some _ \<Rightarrow> False)"

lemma exampleHasURL_cases:
  assumes "exampleHasURL ex"
  shows "ex = None \<or> (\<exists>exampleMap url. ex = Some (VMap exampleMap) \<and> map_of exampleMap ''url'' = Some (VStr url))"
proof (cases ex)
  case None
  then show ?thesis by simp
next
  case (Some v)
  show ?thesis
  proof (cases v)
    case (VMap exampleMap)
    show ?thesis
    proof (cases "map_of exampleMap ''url''")
      case None
      with assms Some VMap show ?thesis by (simp add: exampleHasURL_def)
    next
      case (Some w)
      with assms \<open>ex = Some v\<close> VMap show ?thesis
        by (cases w) (simp_all add: exampleHasURL_def)
    qed
  qed (use assms Some in \<open>simp_all add: exampleHasURL_def\<close>)
qed

lemma listValue_envelopeValue:
  assumes "key = ''url'' \<Longrightarrow> prefix ''^'' (Pattern subSchema) \<or> exampleHasURL (example params)"
  shows "listValue params itemData key subSchema =
     Returns (envelopeValue (example params) (RequestPath params) itemData key subSchema)"
proof (cases "key = ''url''")
  case False
  then show ?thesis by (simp add: listValue_def envelopeValue_def)
next
  case True
  show ?thesis
  proof (cases "prefix ''^'' (Pattern subSchema)")
    case p: True
    with True show ?thesis
      by (simp add: listValue_def envelopeValue_def HasPrefix_def drop_Suc)
  next
    case np: False
    with assms True have "exampleHasURL (example params)" by simp
    from exampleHasURL_cases[OF this] show ?thesis
    proof
      assume "example params = None"
      with True np show ?thesis by (simp add: listValue_def envelopeValue_def HasPrefix_def)
    next
      assume "\<exists>exampleMap url. example params = Some (VMap exampleMap)
          \<and> map_of exampleMap ''url'' = Some (VStr url)"
      then obtain exampleMap url where "example params = Some (VMap exampleMap)"
        and "map_of exampleMap ''url'' = Some (VStr url)" by blast
      with True np show ?thesis by (simp add: listValue_def envelopeValue_def HasPrefix_def)
    qed
  qed
qed

lemma listProperties_envelope:
  assumes "\<forall>subSchema. (''url'', subSchema) \<in> set props \<longrightarrow>
      prefix ''^'' (Pattern subSchema) \<or> exampleHasURL (example params)"
  shows "listProperties params itemData props =
     Returns (map (\<lambda>(key, subSchema).
        (key, envelopeValue (example params) (RequestPath params) itemData key subSchema)) props)"
  using assms
proof (induction props)
  case Nil
  then show ?case by simp
next
  case (Cons p props)
  obtain key subSchema where p: "p = (key, subSchema)" by (cases p)
  from Cons.prems p have "key = ''url'' \<Longrightarrow> prefix ''^'' (Pattern subSchema) \<or> exampleHasURL (example params)"
    by auto
  from listValue_envelopeValue[OF this, where itemData = itemData] Cons show ?case
    by (simp add: p)
qed




text \<open>
  Claim C5 as the specification words it fails when the item cannot be generated:
  for the list envelope whose items refer to a schema that does not exist,
  \<open>generateListResource\<close> returns the error of the item and no map.
\<close>

definition listEnvelope :: "Schema \<Rightarrow> string \<Rightarrow> Schema" where
  "listEnvelope items urlPattern =
     objectSchema
       [(''object'', Schema.Schema VNil VNil [] [] [] (Some [VStr ''list'']) [] None 0 0 0 0 None False
           None [] None [] ''string'' False False [] None None []),
        (''data'', Schema.Schema VNil VNil [] [] [] None [] (Some items) 0 0 0 0 None False
           None [] None [] ''array'' False False [] None None []),
        (''has_more'', plainSchema ''boolean''),
        (''url'', Schema.Schema VNil VNil [] [] [] None [] None 0 0 0 0 None False
           None urlPattern None [] ''string'' False False [] None None []),
        (''total_count'', plainSchema ''integer''),
        (''next_page'', plainSchema ''string'')]
       None"

definition refSchema :: "string \<Rightarrow> Schema" where
  "refSchema ref = Schema.Schema VNil VNil [] [] [] None [] None 0 0 0 0 None False None []
     None [] [] False False ref None None []"

theorem generateListResource_item_error:
  "isListResource (listEnvelope (refSchema ''#/components/schemas/Missing'') ''^/v2/things'') = Returns True
   \<and> generateListResource (generateInternal 1 noDefinitions)
        (topParams None (listEnvelope (refSchema ''#/components/schemas/Missing'') ''^/v2/things'') None)
       = Some (Returns (Inl (UnresolvedRef ''#/components/schemas/Missing'')))"
  by code_simp




text \<open>
  Claim C5, amended. Let the schema be recognized as a list envelope, with
  properties \<open>props\<close>. Whenever the generation of the item from the items schema
  (without example, with the expansions requested under \<open>data\<close>) returns a value,
  and the example can supply the url if a \<open>url\<close> property without a \<open>^\<close> pattern
  needs it, \<open>generateListResource\<close> returns the map that has exactly the declared
  properties, each with the value the specification gives it. An error of the item
  generation is returned as it is.
\<close>

theorem generateListResource_envelope:
  "(isListResource (schema params) = Returns True
    \<and> Properties (schema params) = Some props
    \<and> map_of props ''data'' = Some data \<and> Items data = Some items
    \<and> generateInternal n g
         (childParams params
            (case Expansions params of None \<Rightarrow> None | Some level \<Rightarrow> map_of (expansions level) ''data'')
            items None) = Some (Returns (Inr itemData))
    \<and> (\<forall>subSchema. (''url'', subSchema) \<in> set props \<longrightarrow>
          prefix ''^'' (Pattern subSchema) \<or> exampleHasURL (example params))
    \<longrightarrow> generateListResource (generateInternal n g) params =
          Some (Returns (Inr (VMap (map (\<lambda>(key, subSchema).
            (key, envelopeValue (example params) (RequestPath params) itemData key subSchema)) props)))))
   \<and> (Properties (schema params) = Some props
      \<and> map_of props ''data'' = Some data \<and> Items data = Some items
      \<and> generateInternal n g
         (childParams params
            (case Expansions params of None \<Rightarrow> None | Some level \<Rightarrow> map_of (expansions level) ''data'')
            items None) = Some (Returns (Inl err))
    \<longrightarrow> generateListResource (generateInternal n g) params = Some (Returns (Inl err)))"
proof (intro conjI impI)
  assume a: "isListResource (schema params) = Returns True
    \<and> Properties (schema params) = Some props
    \<and> map_of props ''data'' = Some data \<and> Items data = Some items
    \<and> generateInternal n g
         (childParams params
            (case Expansions params of None \<Rightarrow> None | Some level \<Rightarrow> map_of (expansions level) ''data'')
            items None) = Some (Returns (Inr itemData))
    \<and> (\<forall>subSchema. (''url'', subSchema) \<in> set props \<longrightarrow>
          prefix ''^'' (Pattern subSchema) \<or> exampleHasURL (example params))"
  then have "listProperties params itemData props =
     Returns (map (\<lambda>(key, subSchema).
        (key, envelopeValue (example params) (RequestPath params) itemData key subSchema)) props)"
    by (intro listProperties_envelope) blast
  with a show "generateListResource (generateInternal n g) params =
          Some (Returns (Inr (VMap (map (\<lambda>(key, subSchema).
            (key, envelopeValue (example params) (RequestPath params) itemData key subSchema)) props))))"
    by (simp add: generateListResource_def Let_def)
next
  assume "Properties (schema params) = Some props
      \<and> map_of props ''data'' = Some data \<and> Items data = Some items
      \<and> generateInternal n g
         (childParams params
            (case Expansions params of None \<Rightarrow> None | Some level \<Rightarrow> map_of (expansions level) ''data'')
            items None) = Some (Returns (Inl err))"
  then show "generateListResource (generateInternal n g) params = Some (Returns (Inl err))"
    by (simp add: generateListResource_def Let_def)
qed




lemma generateInternal_list_resource:
  assumes "ResolveRef (schema params) (definitions g) = Returns (Inr s)"
    and "\<not> expansionsRefused (Expansions params) s"
    and "XResourceID s = []" and "XExpansionResources s = None"
    and "AnyOf s = []" and "OneOf s = []"
    and "isListResource s = Returns True"
  shows "generateInternal (Suc n) g params =
     generateListResource (generateInternal n g) (childParams params (Expansions params) s (example params))"
  using assms by (simp add: generateStep_def generateWithExample_def Let_def)

theorem generateListResource_envelope_witness:
  "generateListResource (generateInternal 2 noDefinitions)
     (topParams None (listEnvelope (plainSchema ''string'') ''^/v2/things'') None)
   = Some (Returns (Inr (VMap
       [(''object'', VStr ''list''), (''data'', VSlice [VStr []]), (''has_more'', VBool False),
        (''url'', VStr ''/v2/things''), (''total_count'', VInt 1), (''next_page'', VNil)])))
   \<and> generateListResource (generateInternal 1 noDefinitions)
        (topParams None (listEnvelope (refSchema ''#/components/schemas/Missing'') ''^/v2/things'') None)
       = Some (Returns (Inl (UnresolvedRef ''#/components/schemas/Missing'')))"
proof -
  let ?S = "listEnvelope (plainSchema ''string'') ''^/v2/things''"
  let ?P = "topParams None ?S None"
  let ?props = "the (Properties ?S)"
  let ?data = "the (map_of ?props ''data'')"
  have l: "isListResource (schema ?P) = Returns True" by code_simp
  have p: "Properties (schema ?P) = Some ?props"
    by (simp add: topParams_def listEnvelope_def objectSchema_def)
  have d: "map_of ?props ''data'' = Some ?data \<and> Items ?data = Some (plainSchema ''string'')"
    by (simp add: listEnvelope_def objectSchema_def)
  have i: "generateInternal 2 noDefinitions
         (childParams ?P
            (case Expansions ?P of None \<Rightarrow> None | Some level \<Rightarrow> map_of (expansions level) ''data'')
            (plainSchema ''string'') None) = Some (Returns (Inr (VStr [])))"
    by code_simp
  have u: "\<forall>subSchema. (''url'', subSchema) \<in> set ?props \<longrightarrow>
          prefix ''^'' (Pattern subSchema) \<or> exampleHasURL (example ?P)"
    by (auto simp: listEnvelope_def objectSchema_def)
  note t1 = generateListResource_envelope[where params = ?P and props = ?props and data = ?data
      and items = "plainSchema ''string''" and n = 2 and g = noDefinitions and itemData = "VStr []",
      THEN conjunct1, rule_format, OF conjI[OF l conjI[OF p conjI[OF conjunct1[OF d] conjI[OF conjunct2[OF d] conjI[OF i u]]]]]]
  have e: "map (\<lambda>(key, subSchema).
            (key, envelopeValue (example ?P) (RequestPath ?P) (VStr []) key subSchema)) ?props
      = [(''object'', VStr ''list''), (''data'', VSlice [VStr []]), (''has_more'', VBool False),
        (''url'', VStr ''/v2/things''), (''total_count'', VInt 1), (''next_page'', VNil)]"
    by (simp add: listEnvelope_def objectSchema_def envelopeValue_def)
  let ?S' = "listEnvelope (refSchema ''#/components/schemas/Missing'') ''^/v2/things''"
  let ?P' = "topParams None ?S' None"
  let ?props' = "the (Properties ?S')"
  let ?data' = "the (map_of ?props' ''data'')"
  have h2: "Properties (schema ?P') = Some ?props'
      \<and> map_of ?props' ''data'' = Some ?data' \<and> Items ?data' = Some (refSchema ''#/components/schemas/Missing'')
      \<and> generateInternal 1 noDefinitions
         (childParams ?P'
            (case Expansions ?P' of None \<Rightarrow> None | Some level \<Rightarrow> map_of (expansions level) ''data'')
            (refSchema ''#/components/schemas/Missing'') None)
          = Some (Returns (Inl (UnresolvedRef ''#/components/schemas/Missing'')))"
  proof (intro conjI)
    show "generateInternal 1 noDefinitions
         (childParams ?P'
            (case Expansions ?P' of None \<Rightarrow> None | Some level \<Rightarrow> map_of (expansions level) ''data'')
            (refSchema ''#/components/schemas/Missing'') None)
          = Some (Returns (Inl (UnresolvedRef ''#/components/schemas/Missing'')))"
      by code_simp
  qed (simp_all add: topParams_def listEnvelope_def objectSchema_def)
  note t2 = generateListResource_envelope[where params = ?P' and props = ?props' and data = ?data'
      and items = "refSchema ''#/components/schemas/Missing''" and n = 1 and g = noDefinitions
      and err = "UnresolvedRef ''#/components/schemas/Missing''",
      THEN conjunct2, rule_format, OF h2]
  from t1 e t2 show ?thesis by simp
qed




section \<open>The ID reflector (generator.go)\<close>

text \<open>
  \<open>appendReplacedID\<close>, and the loop over the secondary IDs that the record pass
  runs in three places: the first secondary ID whose name is \<open>name\<close> records
  \<open>strVal\<close> and supplies its ID as the new value (\<open>None\<close> when no name matches).
\<close>

definition appendReplacedID :: "PathParamsSecondaryID \<Rightarrow> string \<Rightarrow> PathParamsSecondaryID" where
  "appendReplacedID p replacedID =
     (if replacedID \<noteq> [] then p \<lparr> replacedIDs := replacedIDs p @ [replacedID] \<rparr> else p)"

fun replaceBySecondary ::
  "PathParamsSecondaryID list \<Rightarrow> string \<Rightarrow> string \<Rightarrow> PathParamsSecondaryID list \<times> string option" where
  "replaceBySecondary [] name strVal = ([], None)"
| "replaceBySecondary (secondaryID # rest) name strVal =
     (if name = PathParamsSecondaryID.Name secondaryID
      then (appendReplacedID secondaryID strVal # rest, Some (ID secondaryID))
      else case replaceBySecondary rest name strVal of
             (rest', r) \<Rightarrow> (secondaryID # rest', r))"

text \<open>
  \<open>recordAndReplaceIDsInternal\<close>. The path parameters and the data are mutated in
  place by the program; here both are returned. The loop over a map goes through
  its entries in order; \<open>done\<close> holds the entries already visited, with their new
  values, so that \<open>dataMap["object"]\<close> reads the map as it is at that moment.
\<close>

fun recordAndReplaceIDsInternal ::
    "PathParamsMap \<Rightarrow> val \<Rightarrow> string option \<Rightarrow> nat \<Rightarrow> PathParamsMap \<times> val"
  and recordSlice :: "PathParamsMap \<Rightarrow> val list \<Rightarrow> nat \<Rightarrow> PathParamsMap \<times> val list"
  and recordMap ::
    "PathParamsMap \<Rightarrow> (string \<times> val) list \<Rightarrow> (string \<times> val) list \<Rightarrow> string option \<Rightarrow> nat
       \<Rightarrow> PathParamsMap \<times> (string \<times> val) list" where
  "recordAndReplaceIDsInternal pathParams (VSlice dataSlice) parentKey recurseLevel =
     (case recordSlice pathParams dataSlice (recurseLevel + 1) of
        (pathParams', dataSlice') \<Rightarrow> (pathParams', VSlice dataSlice'))"
| "recordAndReplaceIDsInternal pathParams (VMap dataMap) parentKey recurseLevel =
     (case recordMap pathParams [] dataMap parentKey recurseLevel of
        (pathParams', dataMap') \<Rightarrow> (pathParams', VMap dataMap'))"
| "recordAndReplaceIDsInternal pathParams VNil parentKey recurseLevel = (pathParams, VNil)"
| "recordAndReplaceIDsInternal pathParams (VBool b) parentKey recurseLevel = (pathParams, VBool b)"
| "recordAndReplaceIDsInternal pathParams (VFloat f) parentKey recurseLevel = (pathParams, VFloat f)"
| "recordAndReplaceIDsInternal pathParams (VInt i) parentKey recurseLevel = (pathParams, VInt i)"
| "recordAndReplaceIDsInternal pathParams (VStr s) parentKey recurseLevel = (pathParams, VStr s)"
| "recordAndReplaceIDsInternal pathParams (VRaw r) parentKey recurseLevel = (pathParams, VRaw r)"
| "recordAndReplaceIDsInternal pathParams (VStrSlice ss) parentKey recurseLevel = (pathParams, VStrSlice ss)"
| "recordSlice pathParams [] recurseLevel = (pathParams, [])"
| "recordSlice pathParams (v # rest) recurseLevel =
     (case recordAndReplaceIDsInternal pathParams v None recurseLevel of
        (pathParams', v') \<Rightarrow>
          (case recordSlice pathParams' rest recurseLevel of
             (pathParams'', rest') \<Rightarrow> (pathParams'', v' # rest')))"
| "recordMap pathParams done [] parentKey recurseLevel = (pathParams, done)"
| "recordMap pathParams done ((key, v) # todo) parentKey recurseLevel =
     (case v of
        VStr strVal \<Rightarrow>
          if key = ''id'' then
            (if recurseLevel = 0 then
               (case PrimaryID pathParams of
                  Some primary \<Rightarrow>
                    recordMap (pathParams \<lparr> replacedPrimaryID := Some strVal \<rparr>)
                      (done @ [(key, VStr primary)]) todo parentKey recurseLevel
                | None \<Rightarrow> recordMap pathParams (done @ [(key, v)]) todo parentKey recurseLevel)
             else
               (case (case map_of (done @ (key, v) # todo) ''object'' of
                        Some (VStr objectVal) \<Rightarrow>
                          replaceBySecondary (SecondaryIDs pathParams) objectVal strVal
                      | _ \<Rightarrow> (SecondaryIDs pathParams, None)) of
                  (ids1, r1) \<Rightarrow>
                    (case (case parentKey of
                             Some parent \<Rightarrow> replaceBySecondary ids1 parent strVal
                           | None \<Rightarrow> (ids1, None)) of
                       (ids2, r2) \<Rightarrow>
                         recordMap (pathParams \<lparr> SecondaryIDs := ids2 \<rparr>)
                           (done @ [(key, case r2 of Some new \<Rightarrow> VStr new
                                          | None \<Rightarrow> (case r1 of Some new \<Rightarrow> VStr new | None \<Rightarrow> v))])
                           todo parentKey recurseLevel)))
          else
            (case replaceBySecondary (SecondaryIDs pathParams) key strVal of
               (ids, r) \<Rightarrow>
                 recordMap (pathParams \<lparr> SecondaryIDs := ids \<rparr>)
                   (done @ [(key, case r of Some new \<Rightarrow> VStr new | None \<Rightarrow> v)])
                   todo parentKey recurseLevel)
      | _ \<Rightarrow>
          (case recordAndReplaceIDsInternal pathParams v (Some key) (recurseLevel + 1) of
             (pathParams', v') \<Rightarrow>
               recordMap pathParams' (done @ [(key, v')]) todo parentKey recurseLevel))"

definition recordAndReplaceIDs :: "PathParamsMap \<Rightarrow> val \<Rightarrow> PathParamsMap \<times> val" where
  "recordAndReplaceIDs pathParams data = recordAndReplaceIDsInternal pathParams data None 0"


text \<open>
  \<open>strings.Replace(s, old, new, 1)\<close>: the leftmost occurrence of \<open>old\<close> replaced.
\<close>

definition ReplaceFirst :: "string \<Rightarrow> string \<Rightarrow> string \<Rightarrow> string" where
  "ReplaceFirst s old new =
     (case Index s old of
        None \<Rightarrow> s
      | Some i \<Rightarrow> take i s @ new @ drop (i + length old) s)"

text \<open>
  \<open>distributeReplacedIDsInValue\<close> and \<open>distributeReplacedIDsInURL\<close>: the new value,
  or \<open>None\<close> for the result \<open>("", false)\<close>. Dereferencing \<open>PrimaryID\<close> panics when it
  is nil.
\<close>

fun findReplaced :: "(string \<Rightarrow> bool) \<Rightarrow> PathParamsSecondaryID list \<Rightarrow> PathParamsSecondaryID option" where
  "findReplaced matches [] = None"
| "findReplaced matches (secondaryID # rest) =
     (if list_ex matches (replacedIDs secondaryID) then Some secondaryID
      else findReplaced matches rest)"

definition distributeReplacedIDsInValue :: "PathParamsMap \<Rightarrow> val \<Rightarrow> string option outcome" where
  "distributeReplacedIDsInValue pathParams v =
     (case v of
        VStr valStr \<Rightarrow>
          if replacedPrimaryID pathParams = Some valStr then
            (case PrimaryID pathParams of None \<Rightarrow> Panics | Some primary \<Rightarrow> Returns (Some primary))
          else (case findReplaced (\<lambda>replacedID. valStr = replacedID) (SecondaryIDs pathParams) of
                  Some secondaryID \<Rightarrow> Returns (Some (ID secondaryID))
                | None \<Rightarrow> Returns None)
      | _ \<Rightarrow> Returns None)"

fun findReplacedInURL :: "string \<Rightarrow> PathParamsSecondaryID list \<Rightarrow> string option" where
  "findReplacedInURL valStr [] = None"
| "findReplacedInURL valStr (secondaryID # rest) =
     (case find (\<lambda>replacedID. Index valStr (''/'' @ replacedID @ ''/'') \<noteq> None) (replacedIDs secondaryID) of
        Some replacedID \<Rightarrow>
          Some (ReplaceFirst valStr (''/'' @ replacedID @ ''/'') (''/'' @ ID secondaryID @ ''/''))
      | None \<Rightarrow> findReplacedInURL valStr rest)"

definition distributeReplacedIDsInURL :: "PathParamsMap \<Rightarrow> val \<Rightarrow> string option outcome" where
  "distributeReplacedIDsInURL pathParams v =
     (case v of
        VStr valStr \<Rightarrow>
          (case replacedPrimaryID pathParams of
             Some replaced \<Rightarrow>
               if Index valStr (''/'' @ replaced @ ''/'') \<noteq> None then
                 (case PrimaryID pathParams of
                    None \<Rightarrow> Panics
                  | Some primary \<Rightarrow>
                      Returns (Some (ReplaceFirst valStr (''/'' @ replaced @ ''/'') (''/'' @ primary @ ''/''))))
               else Returns (findReplacedInURL valStr (SecondaryIDs pathParams))
           | None \<Rightarrow> Returns (findReplacedInURL valStr (SecondaryIDs pathParams)))
      | _ \<Rightarrow> Returns None)"

text \<open>
  The first part of the body of the loop of \<open>distributeReplacedIDs\<close> over a map:
  the new value of the entry when it is replaced as a value or, under the key
  \<open>url\<close>, as a URL.
\<close>

definition replacedEntry :: "PathParamsMap \<Rightarrow> string \<Rightarrow> val \<Rightarrow> string option outcome" where
  "replacedEntry pathParams key v =
     (case distributeReplacedIDsInValue pathParams v of
        Panics \<Rightarrow> Panics
      | Returns (Some newValue) \<Rightarrow> Returns (Some newValue)
      | Returns None \<Rightarrow>
          if key = ''url'' then distributeReplacedIDsInURL pathParams v else Returns None)"

text \<open>A panic anywhere in a loop is a panic of the loop.\<close>

definition consOutcome :: "'a outcome \<Rightarrow> 'a list outcome \<Rightarrow> 'a list outcome" where
  "consOutcome x xs =
     (case x of
        Panics \<Rightarrow> Panics
      | Returns y \<Rightarrow> (case xs of Panics \<Rightarrow> Panics | Returns ys \<Rightarrow> Returns (y # ys)))"

text \<open>\<open>distributeReplacedIDs\<close>; the data is mutated in place by the program, here it is returned.\<close>

fun distributeReplacedIDs :: "PathParamsMap \<Rightarrow> val \<Rightarrow> val outcome"
  and distributeSlice :: "PathParamsMap \<Rightarrow> val list \<Rightarrow> val list outcome"
  and distributeMap :: "PathParamsMap \<Rightarrow> (string \<times> val) list \<Rightarrow> (string \<times> val) list outcome" where
  "distributeReplacedIDs pathParams (VSlice dataSlice) =
     map_outcome VSlice (distributeSlice pathParams dataSlice)"
| "distributeReplacedIDs pathParams (VMap dataMap) =
     map_outcome VMap (distributeMap pathParams dataMap)"
| "distributeReplacedIDs pathParams VNil = Returns VNil"
| "distributeReplacedIDs pathParams (VBool b) = Returns (VBool b)"
| "distributeReplacedIDs pathParams (VFloat f) = Returns (VFloat f)"
| "distributeReplacedIDs pathParams (VInt i) = Returns (VInt i)"
| "distributeReplacedIDs pathParams (VStr s) = Returns (VStr s)"
| "distributeReplacedIDs pathParams (VRaw r) = Returns (VRaw r)"
| "distributeReplacedIDs pathParams (VStrSlice ss) = Returns (VStrSlice ss)"
| "distributeSlice pathParams [] = Returns []"
| "distributeSlice pathParams (v # rest) =
     consOutcome (distributeReplacedIDs pathParams v) (distributeSlice pathParams rest)"
| "distributeMap pathParams [] = Returns []"
| "distributeMap pathParams ((key, v) # rest) =
     consOutcome
       (case replacedEntry pathParams key v of
          Panics \<Rightarrow> Panics
        | Returns (Some newValue) \<Rightarrow> Returns (key, VStr newValue)
        | Returns None \<Rightarrow> map_outcome (Pair key) (distributeReplacedIDs pathParams v))
       (distributeMap pathParams rest)"

text \<open>
  The two passes as \<open>Generate\<close> runs them: the record pass, then the distribute pass
  with the path parameters the record pass has left.
\<close>

definition reflectIDs :: "PathParamsMap \<Rightarrow> val \<Rightarrow> PathParamsMap \<times> val outcome" where
  "reflectIDs pathParams data =
     (case recordAndReplaceIDs pathParams data of
        (pathParams', data') \<Rightarrow> (pathParams', distributeReplacedIDs pathParams' data'))"

text \<open>
  Claim C6 at the path parameters \<open>PrimaryID = p\<close>, \<open>SecondaryIDs = [n1 = old]\<close> and
  the generated object \<open>{id: old, n1: q}\<close>. The first run gives \<open>{id: p, n1: p}\<close>:
  the record pass writes \<open>p\<close> to \<open>id\<close> and \<open>old\<close> to \<open>n1\<close>, and the distribute
  pass then takes the \<open>old\<close> under \<open>n1\<close> for the replaced primary ID. A second run on
  that value gives \<open>{id: p, n1: old}\<close>, whether it starts from the path parameters
  the first run has left or from the original ones.
\<close>

definition twoIDs :: PathParamsMap where
  "twoIDs = \<lparr> PrimaryID = Some ''p'',
     SecondaryIDs = [\<lparr> ID = ''old'', Name = ''n1'', replacedIDs = [] \<rparr>],
     replacedPrimaryID = None \<rparr>"

definition twoIDsAfter :: PathParamsMap where
  "twoIDsAfter = \<lparr> PrimaryID = Some ''p'',
     SecondaryIDs = [\<lparr> ID = ''old'', Name = ''n1'', replacedIDs = [''q''] \<rparr>],
     replacedPrimaryID = Some ''old'' \<rparr>"

theorem reflectIDs_twice_differs:
  "reflectIDs twoIDs (VMap [(''id'', VStr ''old''), (''n1'', VStr ''q'')])
     = (twoIDsAfter, Returns (VMap [(''id'', VStr ''p''), (''n1'', VStr ''p'')]))
   \<and> snd (reflectIDs twoIDsAfter (VMap [(''id'', VStr ''p''), (''n1'', VStr ''p'')]))
     = Returns (VMap [(''id'', VStr ''p''), (''n1'', VStr ''old'')])
   \<and> snd (reflectIDs twoIDs (VMap [(''id'', VStr ''p''), (''n1'', VStr ''p'')]))
     = Returns (VMap [(''id'', VStr ''p''), (''n1'', VStr ''old'')])
   \<and> VMap [(''id'', VStr ''p''), (''n1'', VStr ''p'')] \<noteq> VMap [(''id'', VStr ''p''), (''n1'', VStr ''old'')]"
  by code_simp



section \<open>The reflector with a primary ID only\<close>

lemma Index_SomeD: "Index s sep = Some i \<Longrightarrow> prefix sep (drop i s)"
proof (induction s arbitrary: i)
  case Nil
  then show ?case by (simp split: if_splits)
next
  case (Cons c cs)
  show ?case
  proof (cases "prefix sep (c # cs)")
    case True
    with Cons.prems show ?thesis by simp
  next
    case False
    with Cons.prems obtain j where "i = Suc j" and "Index cs sep = Some j" by auto
    with Cons.IH show ?thesis by simp
  qed
qed

lemma ReplaceFirst_same: "ReplaceFirst s old old = s"
proof (cases "Index s old")
  case None
  then show ?thesis by (simp add: ReplaceFirst_def)
next
  case (Some i)
  from Index_SomeD[OF Some] obtain r where r: "drop i s = old @ r" by (auto simp: prefix_def)
  have "drop (i + length old) s = drop (length old) (drop i s)" by (simp add: add.commute)
  also have "\<dots> = r" by (simp add: r)
  finally have "take i s @ old @ drop (i + length old) s = take i s @ drop i s" by (simp add: r)
  with Some show ?thesis by (simp add: ReplaceFirst_def)
qed

lemma record_deep:
  "SecondaryIDs pp = [] \<Longrightarrow> 0 < level \<Longrightarrow> recordAndReplaceIDsInternal pp v pk level = (pp, v)"
  "SecondaryIDs pp = [] \<Longrightarrow> 0 < level \<Longrightarrow> recordSlice pp vs level = (pp, vs)"
  "SecondaryIDs pp = [] \<Longrightarrow> 0 < level \<Longrightarrow> recordMap pp done todo pk level = (pp, done @ todo)"
proof (induction pp v pk level and pp vs level and pp "done" todo pk level
    rule: recordAndReplaceIDsInternal_recordSlice_recordMap.induct)
  case (13 pathParams "done" key v todo parentKey recurseLevel)
  show ?case
  proof (cases v)
    case (VStr strVal)
    have e: "pathParams \<lparr> SecondaryIDs := [] \<rparr> = pathParams" using "13.prems" by simp
    show ?thesis
    proof (cases "key = ''id''")
      case True
      have a: "(case map_of (done @ (key, v) # todo) ''object'' of
                        Some (VStr objectVal) \<Rightarrow>
                          replaceBySecondary (SecondaryIDs pathParams) objectVal strVal
                      | _ \<Rightarrow> (SecondaryIDs pathParams, None)) = ([], None)"
        using "13.prems" by (simp split: option.splits val.splits)
      have b: "(case parentKey of
                             Some parent \<Rightarrow> replaceBySecondary [] parent strVal
                           | None \<Rightarrow> ([], None)) = ([], None)"
        by (simp split: option.splits)
      from "13.prems" have l: "recurseLevel \<noteq> 0" by simp
      have "recordMap (pathParams \<lparr> SecondaryIDs := [] \<rparr>) (done @ [(key, v)]) todo parentKey recurseLevel
          = (pathParams \<lparr> SecondaryIDs := [] \<rparr>, (done @ [(key, v)]) @ todo)"
        using "13.IH"(11)[OF VStr True l a[symmetric] b[symmetric] _ "13.prems"(2)] by simp
      with a b l show ?thesis
        using VStr True by (simp add: e)
    next
      case False
      have "recordMap (pathParams \<lparr> SecondaryIDs := [] \<rparr>) (done @ [(key, v)]) todo parentKey recurseLevel
          = (pathParams \<lparr> SecondaryIDs := [] \<rparr>, (done @ [(key, v)]) @ todo)"
        using "13.IH"(12)[OF VStr False _ _ "13.prems"(2), of "[]" None] "13.prems"(1) by simp
      then show ?thesis
        using "13.prems" VStr False by (simp add: e)
    qed
  next
    case (VSlice xs)
    have r: "recordAndReplaceIDsInternal pathParams v (Some key) (recurseLevel + 1) = (pathParams, v)"
      using "13.IH"(13)[OF VSlice] "13.prems" by simp
    have "recordMap pathParams (done @ [(key, v)]) todo parentKey recurseLevel
        = (pathParams, (done @ [(key, v)]) @ todo)"
      using "13.IH"(14)[OF VSlice r[symmetric]] "13.prems" by simp
    with r show ?thesis unfolding VSlice by (simp del: recordAndReplaceIDsInternal.simps)
  next
    case (VMap es)
    have r: "recordAndReplaceIDsInternal pathParams v (Some key) (recurseLevel + 1) = (pathParams, v)"
      using "13.IH"(15)[OF VMap] "13.prems" by simp
    have "recordMap pathParams (done @ [(key, v)]) todo parentKey recurseLevel
        = (pathParams, (done @ [(key, v)]) @ todo)"
      using "13.IH"(16)[OF VMap r[symmetric]] "13.prems" by simp
    with r show ?thesis unfolding VMap by (simp del: recordAndReplaceIDsInternal.simps)
  qed (use "13.prems" in \<open>simp_all add: "13.IH"\<close>)
qed simp_all


definition isString :: "val \<Rightarrow> bool" where
  "isString v = (case v of VStr s \<Rightarrow> True | _ \<Rightarrow> False)"

text \<open>The strings under the key \<open>id\<close> of a map, and the entry after the record pass.\<close>

fun topIDs :: "(string \<times> val) list \<Rightarrow> string list" where
  "topIDs [] = []"
| "topIDs ((key, v) # rest) =
     (case v of VStr s \<Rightarrow> if key = ''id'' then s # topIDs rest else topIDs rest | _ \<Rightarrow> topIDs rest)"

definition setTopID :: "string \<Rightarrow> string \<times> val \<Rightarrow> string \<times> val" where
  "setTopID primary e = (if fst e = ''id'' \<and> isString (snd e) then (fst e, VStr primary) else e)"

lemma recordMap_top_primary:
  assumes "SecondaryIDs pp = []" and "PrimaryID pp = Some primary"
  shows "recordMap pp done todo pk 0 =
     (if topIDs todo = [] then pp else pp \<lparr> replacedPrimaryID := Some (last (topIDs todo)) \<rparr>,
      done @ map (setTopID primary) todo)"
  using assms
proof (induction todo arbitrary: pp "done")
  case Nil
  then show ?case by simp
next
  case (Cons e todo)
  obtain key v where e: "e = (key, v)" by (cases e)
  have eq: "pp \<lparr> SecondaryIDs := [] \<rparr> = pp" using Cons.prems by simp
  show ?case
  proof (cases v)
    case (VStr s)
    show ?thesis
    proof (cases "key = ''id''")
      case True
      let ?pp = "pp \<lparr> replacedPrimaryID := Some s \<rparr>"
      have "recordMap pp done (e # todo) pk 0 = recordMap ?pp (done @ [(key, VStr primary)]) todo pk 0"
        using Cons.prems by (simp add: e VStr True)
      also have "\<dots> = (if topIDs todo = [] then ?pp else ?pp \<lparr> replacedPrimaryID := Some (last (topIDs todo)) \<rparr>,
          (done @ [(key, VStr primary)]) @ map (setTopID primary) todo)"
        by (rule Cons.IH) (use Cons.prems in simp_all)
      finally show ?thesis by (simp add: e VStr True setTopID_def isString_def)
    next
      case False
      have "recordMap pp done (e # todo) pk 0 = recordMap pp (done @ [(key, v)]) todo pk 0"
        using Cons.prems by (simp add: e VStr False eq)
      also have "\<dots> = (if topIDs todo = [] then pp else pp \<lparr> replacedPrimaryID := Some (last (topIDs todo)) \<rparr>,
          (done @ [(key, v)]) @ map (setTopID primary) todo)"
        by (rule Cons.IH) (use Cons.prems in simp_all)
      finally show ?thesis by (simp add: e VStr False setTopID_def)
    qed
  next
    case (VSlice xs)
    have r: "recordAndReplaceIDsInternal pp v (Some key) (0 + 1) = (pp, v)"
      by (rule record_deep(1)) (use Cons.prems in simp_all)
    have "recordMap pp done (e # todo) pk 0 = recordMap pp (done @ [(key, v)]) todo pk 0"
      using r unfolding e VSlice by (simp del: recordAndReplaceIDsInternal.simps)
    also have "\<dots> = (if topIDs todo = [] then pp else pp \<lparr> replacedPrimaryID := Some (last (topIDs todo)) \<rparr>,
          (done @ [(key, v)]) @ map (setTopID primary) todo)"
      by (rule Cons.IH) (use Cons.prems in simp_all)
    finally show ?thesis by (simp add: e VSlice setTopID_def isString_def)
  next
    case (VMap es)
    have r: "recordAndReplaceIDsInternal pp v (Some key) (0 + 1) = (pp, v)"
      by (rule record_deep(1)) (use Cons.prems in simp_all)
    have "recordMap pp done (e # todo) pk 0 = recordMap pp (done @ [(key, v)]) todo pk 0"
      using r unfolding e VMap by (simp del: recordAndReplaceIDsInternal.simps)
    also have "\<dots> = (if topIDs todo = [] then pp else pp \<lparr> replacedPrimaryID := Some (last (topIDs todo)) \<rparr>,
          (done @ [(key, v)]) @ map (setTopID primary) todo)"
      by (rule Cons.IH) (use Cons.prems in simp_all)
    finally show ?thesis by (simp add: e VMap setTopID_def isString_def)
  qed (use Cons.IH[of pp "done @ [e]"] Cons.prems in \<open>simp_all add: e setTopID_def isString_def\<close>)
qed

lemma recordMap_top_no_primary:
  assumes "SecondaryIDs pp = []" and "PrimaryID pp = None"
  shows "recordMap pp done todo pk 0 = (pp, done @ todo)"
  using assms
proof (induction todo arbitrary: "done")
  case Nil
  then show ?case by simp
next
  case (Cons e todo)
  obtain key v where e: "e = (key, v)" by (cases e)
  have eq: "pp \<lparr> SecondaryIDs := [] \<rparr> = pp" using Cons.prems by simp
  have ih: "recordMap pp (done @ [(key, v)]) todo pk 0 = (pp, (done @ [(key, v)]) @ todo)"
    by (rule Cons.IH) (use Cons.prems in simp_all)
  show ?case
  proof (cases v)
    case (VStr s)
    with ih Cons.prems show ?thesis by (auto simp: e eq)
  next
    case (VSlice xs)
    have r: "recordAndReplaceIDsInternal pp v (Some key) (0 + 1) = (pp, v)"
      by (rule record_deep(1)) (use Cons.prems in simp_all)
    with ih show ?thesis unfolding e VSlice by (simp del: recordAndReplaceIDsInternal.simps)
  next
    case (VMap es)
    have r: "recordAndReplaceIDsInternal pp v (Some key) (0 + 1) = (pp, v)"
      by (rule record_deep(1)) (use Cons.prems in simp_all)
    with ih show ?thesis unfolding e VMap by (simp del: recordAndReplaceIDsInternal.simps)
  qed (use ih in \<open>simp_all add: e\<close>)
qed



lemma replacedEntry_identity:
  assumes "SecondaryIDs pp = []"
    and "replacedPrimaryID pp = None \<or> replacedPrimaryID pp = PrimaryID pp"
  shows "replacedEntry pp key v = Returns None
       \<or> (\<exists>s. v = VStr s \<and> replacedEntry pp key v = Returns (Some s))"
proof (cases v)
  case (VStr s)
  show ?thesis
  proof (cases "replacedPrimaryID pp")
    case None
    with assms VStr show ?thesis
      by (simp add: replacedEntry_def distributeReplacedIDsInValue_def distributeReplacedIDsInURL_def)
  next
    case (Some r)
    with assms have p: "PrimaryID pp = Some r" by simp
    show ?thesis
    proof (cases "r = s")
      case True
      with Some p VStr show ?thesis
        by (simp add: replacedEntry_def distributeReplacedIDsInValue_def)
    next
      case False
      with Some p VStr assms(1) show ?thesis
        by (simp add: replacedEntry_def distributeReplacedIDsInValue_def
            distributeReplacedIDsInURL_def ReplaceFirst_same)
    qed
  qed
qed (simp_all add: replacedEntry_def distributeReplacedIDsInValue_def distributeReplacedIDsInURL_def)

lemma distribute_identity:
  assumes "SecondaryIDs pp = []"
    and "replacedPrimaryID pp = None \<or> replacedPrimaryID pp = PrimaryID pp"
  shows "distributeReplacedIDs pp v = Returns v"
    and "distributeSlice pp vs = Returns vs"
    and "distributeMap pp es = Returns es"
  using assms
proof (induction pp v and pp vs and pp es rule: distributeReplacedIDs_distributeSlice_distributeMap.induct)
  case (13 pathParams key v rest)
  from replacedEntry_identity[OF "13.prems", of key v]
  have "(case replacedEntry pathParams key v of
          Panics \<Rightarrow> Panics
        | Returns (Some newValue) \<Rightarrow> Returns (key, VStr newValue)
        | Returns None \<Rightarrow> map_outcome (Pair key) (distributeReplacedIDs pathParams v))
      = Returns (key, v)"
  proof
    assume n: "replacedEntry pathParams key v = Returns None"
    with "13.IH"(1)[OF _ _ "13.prems"] show ?thesis by simp
  next
    assume "\<exists>s. v = VStr s \<and> replacedEntry pathParams key v = Returns (Some s)"
    then show ?thesis by auto
  qed
  with "13.IH"(2)[OF "13.prems"] show ?case by (simp add: consOutcome_def)
qed (simp_all add: consOutcome_def)

definition entryKept :: "string \<Rightarrow> string \<times> val \<Rightarrow> string \<times> val \<Rightarrow> bool" where
  "entryKept p e e' \<longleftrightarrow>
     fst e' = fst e \<and> (isString (snd e') \<longleftrightarrow> isString (snd e))
     \<and> (fst e = ''id'' \<and> snd e = VStr p \<longrightarrow> snd e' = VStr p)"

lemma replacedEntry_primary:
  assumes "SecondaryIDs pp = []" and "PrimaryID pp = Some p"
  shows "replacedEntry pp key v = Returns None
       \<or> (\<exists>s s'. v = VStr s \<and> replacedEntry pp key v = Returns (Some s')
             \<and> (key = ''id'' \<and> s = p \<longrightarrow> s' = p))"
proof (cases v)
  case (VStr s)
  show ?thesis
  proof (cases "replacedPrimaryID pp = Some s")
    case True
    with assms VStr show ?thesis
      by (simp add: replacedEntry_def distributeReplacedIDsInValue_def)
  next
    case False
    show ?thesis
    proof (cases "key = ''url''")
      case u: True
      with False assms VStr show ?thesis
        by (cases "replacedPrimaryID pp")
           (simp_all add: replacedEntry_def distributeReplacedIDsInValue_def distributeReplacedIDsInURL_def)
    next
      case nu: False
      with False assms VStr show ?thesis
        by (simp add: replacedEntry_def distributeReplacedIDsInValue_def)
    qed
  qed
qed (simp_all add: replacedEntry_def distributeReplacedIDsInValue_def distributeReplacedIDsInURL_def)

lemma distribute_primary:
  assumes "SecondaryIDs pp = []" and "PrimaryID pp = Some p"
  shows "\<exists>v'. distributeReplacedIDs pp v = Returns v' \<and> (isString v' \<longleftrightarrow> isString v)"
    and "\<exists>vs'. distributeSlice pp vs = Returns vs'"
    and "\<exists>es'. distributeMap pp es = Returns es' \<and> list_all2 (entryKept p) es es'"
  using assms
proof (induction pp v and pp vs and pp es rule: distributeReplacedIDs_distributeSlice_distributeMap.induct)
  case (1 pathParams dataSlice)
  then show ?case by (auto simp: isString_def)
next
  case (2 pathParams dataMap)
  then show ?case by (auto simp: isString_def)
next
  case (11 pathParams v rest)
  then show ?case by (auto simp: consOutcome_def)
next
  case (13 pathParams key v rest)
  from "13.IH"(2)[OF "13.prems"] obtain rest' where
    r: "distributeMap pathParams rest = Returns rest'" and k: "list_all2 (entryKept p) rest rest'"
    by blast
  from replacedEntry_primary[OF "13.prems", of key v]
  have "\<exists>v'. (case replacedEntry pathParams key v of
          Panics \<Rightarrow> Panics
        | Returns (Some newValue) \<Rightarrow> Returns (key, VStr newValue)
        | Returns None \<Rightarrow> map_outcome (Pair key) (distributeReplacedIDs pathParams v))
      = Returns (key, v') \<and> entryKept p (key, v) (key, v')"
  proof
    assume n: "replacedEntry pathParams key v = Returns None"
    from "13.IH"(1)[OF _ _ "13.prems"] n obtain v' where
      "distributeReplacedIDs pathParams v = Returns v'" and s: "isString v' \<longleftrightarrow> isString v"
      by auto
    moreover have "v = VStr p \<longrightarrow> v' = VStr p" using calculation by auto
    ultimately show ?thesis using n by (auto simp: entryKept_def)
  next
    assume "\<exists>s s'. v = VStr s \<and> replacedEntry pathParams key v = Returns (Some s')
             \<and> (key = ''id'' \<and> s = p \<longrightarrow> s' = p)"
    then show ?thesis by (auto simp: entryKept_def isString_def)
  qed
  with r k show ?case by (auto simp: consOutcome_def)
qed (simp_all add: isString_def)



definition settled :: "string \<Rightarrow> (string \<times> val) list \<Rightarrow> bool" where
  "settled p es \<longleftrightarrow> (\<forall>e \<in> set es. fst e = ''id'' \<and> isString (snd e) \<longrightarrow> snd e = VStr p)"

lemma settled_setTopID: "settled p es \<Longrightarrow> map (setTopID p) es = es"
  by (induction es) (auto simp: settled_def setTopID_def)

lemma topIDs_empty_iff:
  "topIDs es = [] \<longleftrightarrow> (\<forall>e \<in> set es. \<not> (fst e = ''id'' \<and> isString (snd e)))"
proof (induction es)
  case Nil
  then show ?case by simp
next
  case (Cons e es)
  obtain key v where e: "e = (key, v)" by (cases e)
  show ?case using Cons.IH by (cases v) (auto simp: e isString_def)
qed

lemma settled_topIDs: "settled p es \<Longrightarrow> set (topIDs es) \<subseteq> {p}"
proof (induction es)
  case Nil
  then show ?case by simp
next
  case (Cons e es)
  obtain key v where e: "e = (key, v)" by (cases e)
  from Cons.prems have s: "settled p es" by (simp add: settled_def)
  from Cons.prems have h: "key = ''id'' \<and> isString v \<longrightarrow> v = VStr p"
    by (simp add: settled_def e)
  show ?case using Cons.IH[OF s] h by (cases v) (auto simp: e isString_def)
qed

lemma settled_last:
  assumes "settled p es" and "topIDs es \<noteq> []"
  shows "last (topIDs es) = p"
proof -
  from assms(2) have "last (topIDs es) \<in> set (topIDs es)" by (rule last_in_set)
  with settled_topIDs[OF assms(1)] show ?thesis by blast
qed

lemma kept_settled:
  assumes "list_all2 (entryKept p) (map (setTopID p) es) es1"
  shows "settled p es1 \<and> (topIDs es1 = [] \<longleftrightarrow> topIDs es = [])"
  using assms
proof (induction es arbitrary: es1)
  case Nil
  then show ?case by (simp add: settled_def)
next
  case (Cons e es)
  from Cons.prems obtain e1 rest1 where es1: "es1 = e1 # rest1"
    and k: "entryKept p (setTopID p e) e1"
    and r: "list_all2 (entryKept p) (map (setTopID p) es) rest1"
    by (auto simp: list_all2_Cons1)
  from Cons.IH[OF r] have ih: "settled p rest1" "topIDs rest1 = [] \<longleftrightarrow> topIDs es = []" by auto
  from k have a: "fst e1 = fst e" and b: "isString (snd e1) \<longleftrightarrow> isString (snd e)"
    and c: "fst e = ''id'' \<and> isString (snd e) \<longrightarrow> snd e1 = VStr p"
    by (auto simp: entryKept_def setTopID_def isString_def split: if_splits)
  from ih(1) a b c have "settled p es1" by (auto simp: settled_def es1)
  moreover have "topIDs es1 = [] \<longleftrightarrow> topIDs (e # es) = []"
    unfolding topIDs_empty_iff using ih(2) a b by (auto simp: es1 topIDs_empty_iff)
  ultimately show ?case by simp
qed

lemma record_unchanged:
  assumes "SecondaryIDs pp = []" and "PrimaryID pp = None \<or> (\<forall>es. v \<noteq> VMap es)"
  shows "recordAndReplaceIDs pp v = (pp, v)"
proof (cases v)
  case (VSlice xs)
  with assms(1) show ?thesis by (simp add: recordAndReplaceIDs_def record_deep(2))
next
  case (VMap es)
  with assms show ?thesis by (simp add: recordAndReplaceIDs_def recordMap_top_no_primary)
qed (simp_all add: recordAndReplaceIDs_def)

lemma reflect_unchanged:
  assumes "SecondaryIDs pp = []" and "replacedPrimaryID pp = None"
    and "PrimaryID pp = None \<or> (\<forall>es. v \<noteq> VMap es)"
  shows "reflectIDs pp v = (pp, Returns v)"
  using record_unchanged[OF assms(1,3)] distribute_identity(1)[of pp v] assms(1,2)
  by (simp add: reflectIDs_def)

lemma reflect_settled:
  assumes "SecondaryIDs pp = []" and "PrimaryID pp = Some p" and "settled p es"
    and "topIDs es = [] \<longrightarrow> replacedPrimaryID pp = None"
  shows "snd (reflectIDs pp (VMap es)) = Returns (VMap es)"
proof -
  let ?pp = "if topIDs es = [] then pp else pp \<lparr> replacedPrimaryID := Some (last (topIDs es)) \<rparr>"
  have r: "recordAndReplaceIDs pp (VMap es) = (?pp, VMap es)"
    using recordMap_top_primary[OF assms(1,2), of "[]" es None] settled_setTopID[OF assms(3)]
    by (simp add: recordAndReplaceIDs_def)
  have "SecondaryIDs ?pp = []" using assms(1) by simp
  moreover have "replacedPrimaryID ?pp = None \<or> replacedPrimaryID ?pp = PrimaryID ?pp"
    using assms(2,4) settled_last[OF assms(3)] by auto
  ultimately have "distributeReplacedIDs ?pp (VMap es) = Returns (VMap es)"
    by (rule distribute_identity(1))
  with r show ?thesis by (simp add: reflectIDs_def)
qed

lemma reflect_primary_map:
  assumes "SecondaryIDs pp = []" and "PrimaryID pp = Some p" and "replacedPrimaryID pp = None"
  shows "\<exists>pp1 es1. reflectIDs pp (VMap es) = (pp1, Returns (VMap es1))
           \<and> snd (reflectIDs pp1 (VMap es1)) = Returns (VMap es1)
           \<and> snd (reflectIDs pp (VMap es1)) = Returns (VMap es1)"
proof -
  let ?pp1 = "if topIDs es = [] then pp else pp \<lparr> replacedPrimaryID := Some (last (topIDs es)) \<rparr>"
  let ?mid = "map (setTopID p) es"
  have r: "recordAndReplaceIDs pp (VMap es) = (?pp1, VMap ?mid)"
    using recordMap_top_primary[OF assms(1,2), of "[]" es None]
    by (simp add: recordAndReplaceIDs_def)
  have s1: "SecondaryIDs ?pp1 = []" and p1: "PrimaryID ?pp1 = Some p" using assms by simp_all
  from distribute_primary(3)[OF s1 p1, of ?mid] obtain es1 where
    d: "distributeMap ?pp1 ?mid = Returns es1" and k: "list_all2 (entryKept p) ?mid es1"
    by blast
  from kept_settled[OF k] have st: "settled p es1" and te: "topIDs es1 = [] \<longleftrightarrow> topIDs es = []"
    by auto
  have run1: "reflectIDs pp (VMap es) = (?pp1, Returns (VMap es1))"
    using r d by (simp add: reflectIDs_def)
  have "topIDs es1 = [] \<longrightarrow> replacedPrimaryID ?pp1 = None" using te assms(3) by simp
  from reflect_settled[OF s1 p1 st this]
  have carried: "snd (reflectIDs ?pp1 (VMap es1)) = Returns (VMap es1)" .
  have fresh: "snd (reflectIDs pp (VMap es1)) = Returns (VMap es1)"
    by (rule reflect_settled[OF assms(1,2) st]) (simp add: assms(3))
  from run1 carried fresh show ?thesis by blast
qed

text \<open>
  Claim C6, amended. When the path parameters hold no secondary IDs (at most a
  primary ID, and nothing recorded yet), the reflector returns a value, and running
  it a second time on that value returns the same value, whether the second run
  starts from the path parameters the first run has left or from the original ones.
\<close>

theorem reflectIDs_primary_only_idempotent:
  "SecondaryIDs pp = [] \<and> replacedPrimaryID pp = None \<longrightarrow>
     (\<exists>pp1 v1. reflectIDs pp v = (pp1, Returns v1)
        \<and> snd (reflectIDs pp1 v1) = Returns v1
        \<and> snd (reflectIDs pp v1) = Returns v1)"
proof
  assume a: "SecondaryIDs pp = [] \<and> replacedPrimaryID pp = None"
  show "\<exists>pp1 v1. reflectIDs pp v = (pp1, Returns v1)
        \<and> snd (reflectIDs pp1 v1) = Returns v1
        \<and> snd (reflectIDs pp v1) = Returns v1"
  proof (cases "PrimaryID pp = None \<or> (\<forall>es. v \<noteq> VMap es)")
    case True
    from a True have "reflectIDs pp v = (pp, Returns v)" by (intro reflect_unchanged) auto
    then show ?thesis by simp
  next
    case False
    then obtain p es where "PrimaryID pp = Some p" and "v = VMap es" by auto
    with a reflect_primary_map[of pp p es] show ?thesis by auto
  qed
qed

theorem reflectIDs_primary_only_idempotent_witness:
  "reflectIDs \<lparr> PrimaryID = Some ''p'', SecondaryIDs = [], replacedPrimaryID = None \<rparr>
     (VMap [(''id'', VStr ''old''), (''url'', VStr ''/v1/x/old/y''),
            (''sub'', VMap [(''parent'', VStr ''old'')])])
   = (\<lparr> PrimaryID = Some ''p'', SecondaryIDs = [], replacedPrimaryID = Some ''old'' \<rparr>,
      Returns (VMap [(''id'', VStr ''p''), (''url'', VStr ''/v1/x/p/y''),
            (''sub'', VMap [(''parent'', VStr ''p'')])]))
   \<and> snd (reflectIDs \<lparr> PrimaryID = Some ''p'', SecondaryIDs = [], replacedPrimaryID = Some ''old'' \<rparr>
       (VMap [(''id'', VStr ''p''), (''url'', VStr ''/v1/x/p/y''),
            (''sub'', VMap [(''parent'', VStr ''p'')])]))
     = Returns (VMap [(''id'', VStr ''p''), (''url'', VStr ''/v1/x/p/y''),
            (''sub'', VMap [(''parent'', VStr ''p'')])])"
proof -
  let ?pp = "\<lparr> PrimaryID = Some ''p'', SecondaryIDs = [], replacedPrimaryID = None \<rparr>"
  let ?v = "VMap [(''id'', VStr ''old''), (''url'', VStr ''/v1/x/old/y''),
            (''sub'', VMap [(''parent'', VStr ''old'')])]"
  have e: "reflectIDs ?pp ?v
      = (\<lparr> PrimaryID = Some ''p'', SecondaryIDs = [], replacedPrimaryID = Some ''old'' \<rparr>,
      Returns (VMap [(''id'', VStr ''p''), (''url'', VStr ''/v1/x/p/y''),
            (''sub'', VMap [(''parent'', VStr ''p'')])]))"
    by code_simp
  have h: "SecondaryIDs ?pp = [] \<and> replacedPrimaryID ?pp = None" by simp
  from reflectIDs_primary_only_idempotent[of ?pp ?v, rule_format, OF h] obtain pp1 v1 where
    "reflectIDs ?pp ?v = (pp1, Returns v1)" and "snd (reflectIDs pp1 v1) = Returns v1"
    by blast
  with e show ?thesis by simp
qed

section \<open>Flattening allOf (spec/spec.go, FlattenAllOf)\<close>

text \<open>
  Modelled from the spec: \<open>mergo.Merge\<close>, the merge of the third-party library
  \<open>github.com/imdario/mergo\<close> that \<open>FlattenAllOf\<close> calls and whose code is not part of
  these sources. The specification describes it as a union in which a scalar keeps
  the first non-zero value it met and container fields are merged by key; the
  library documents that it fills the zero-valued fields of the destination from
  the source and never overwrites a value that is set. Field by field, for a
  destination \<open>d\<close> and a source \<open>s\<close>:
  \<^item> a string, number, boolean or slice of \<open>d\<close> that is empty (zero, false, of length
    0) takes the value of \<open>s\<close> when that is not empty, and is kept otherwise;
  \<^item> a nil pointer or interface of \<open>d\<close> takes the value of \<open>s\<close>; a nil one of \<open>s\<close>
    changes nothing;
  \<^item> the map \<open>Properties\<close> gets the keys of \<open>s\<close> it does not have.
  What happens where both sides hold a value (two schemas under \<open>Items\<close> or under
  the same property name, two dynamic values) is left open by the specification,
  which calls the merge shallow in one place and deep in another; it is the
  parameter \<open>both\<close> for schemas and \<open>bothDynamic\<close> for dynamic values, and every
  statement below holds for all choices of them.
\<close>

definition mergeDynamic :: "(val \<Rightarrow> val \<Rightarrow> val) \<Rightarrow> val \<Rightarrow> val \<Rightarrow> val" where
  "mergeDynamic bothDynamic d s =
     (if s = VNil then d else if d = VNil then s else bothDynamic d s)"

definition mergeList :: "'a list \<Rightarrow> 'a list \<Rightarrow> 'a list" where
  "mergeList d s = (if d = [] \<and> s \<noteq> [] then s else d)"

definition isEmptySlice :: "'a list option \<Rightarrow> bool" where
  "isEmptySlice xs = (case xs of None \<Rightarrow> True | Some ys \<Rightarrow> ys = [])"

definition mergeSlice :: "'a list option \<Rightarrow> 'a list option \<Rightarrow> 'a list option" where
  "mergeSlice d s = (if isEmptySlice d \<and> \<not> isEmptySlice s then s else d)"

definition mergeInt :: "int \<Rightarrow> int \<Rightarrow> int" where
  "mergeInt d s = (if d = 0 \<and> s \<noteq> 0 then s else d)"

definition mergeBool :: "bool \<Rightarrow> bool \<Rightarrow> bool" where
  "mergeBool d s = (if \<not> d \<and> s then s else d)"

definition mergePointer :: "('a \<Rightarrow> 'a \<Rightarrow> 'a) \<Rightarrow> 'a option \<Rightarrow> 'a option \<Rightarrow> 'a option" where
  "mergePointer both d s =
     (case s of
        None \<Rightarrow> d
      | Some sv \<Rightarrow> (case d of None \<Rightarrow> Some sv | Some dv \<Rightarrow> Some (both dv sv)))"

fun mergeProperties ::
  "(Schema \<Rightarrow> Schema \<Rightarrow> Schema) \<Rightarrow> (string \<times> Schema) list \<Rightarrow> (string \<times> Schema) list
     \<Rightarrow> (string \<times> Schema) list" where
  "mergeProperties both d [] = d"
| "mergeProperties both d ((key, sv) # rest) =
     mergeProperties both
       (case map_of d key of
          None \<Rightarrow> d @ [(key, sv)]
        | Some dv \<Rightarrow> AList.update key (both dv sv) d)
       rest"

definition mergeMap ::
  "(Schema \<Rightarrow> Schema \<Rightarrow> Schema) \<Rightarrow> (string \<times> Schema) list option \<Rightarrow> (string \<times> Schema) list option
     \<Rightarrow> (string \<times> Schema) list option" where
  "mergeMap both d s =
     (case s of
        None \<Rightarrow> d
      | Some sprops \<Rightarrow> Some (mergeProperties both (case d of None \<Rightarrow> [] | Some dprops \<Rightarrow> dprops) sprops))"

definition Merge ::
  "(Schema \<Rightarrow> Schema \<Rightarrow> Schema) \<Rightarrow> (val \<Rightarrow> val \<Rightarrow> val) \<Rightarrow> Schema \<Rightarrow> Schema \<Rightarrow> Schema" where
  "Merge both bothDynamic d s =
     Schema.Schema
       (mergeDynamic bothDynamic (AdditionalProperties d) (AdditionalProperties s))
       (mergeDynamic bothDynamic (Discriminator d) (Discriminator s))
       (mergeList (AllOf d) (AllOf s))
       (mergeList (AnyOf d) (AnyOf s))
       (mergeList (OneOf d) (OneOf s))
       (mergeSlice (Enum d) (Enum s))
       (mergeList (Format d) (Format s))
       (mergePointer both (Items d) (Items s))
       (mergeInt (MaxLength d) (MaxLength s))
       (mergeInt (MinLength d) (MinLength s))
       (mergeInt (Minimum d) (Minimum s))
       (mergeInt (Maximum d) (Maximum s))
       (mergeSlice (Default d) (Default s))
       (mergeBool (Nullable d) (Nullable s))
       (mergeSlice (Example d) (Example s))
       (mergeList (Pattern d) (Pattern s))
       (mergeMap both (Properties d) (Properties s))
       (mergeList (Schema.Required d) (Schema.Required s))
       (mergeList (Schema.Type d) (Schema.Type s))
       (mergeBool (WriteOnly d) (WriteOnly s))
       (mergeBool (ReadOnly d) (ReadOnly s))
       (mergeList (Schema.Ref d) (Schema.Ref s))
       (mergePointer mergeList (XExpandableFields d) (XExpandableFields s))
       (mergePointer (\<lambda>dr sr. ExpansionResources (mergeList (OneOfs dr) (OneOfs sr)))
          (XExpansionResources d) (XExpansionResources s))
       (mergeList (XResourceID d) (XResourceID s))"

text \<open>
  \<open>FlattenAllOf\<close>, from the source. The inner function \<open>flatten\<close> sets the \<open>AllOf\<close>
  of its input to nil for the time of the merge, so that the merge sees the input
  without it, and then flattens every element of the \<open>AllOf\<close> into the same output.
\<close>

fun flatten ::
    "(Schema \<Rightarrow> Schema \<Rightarrow> Schema) \<Rightarrow> (val \<Rightarrow> val \<Rightarrow> val) \<Rightarrow> Schema \<Rightarrow> Schema \<Rightarrow> Schema"
  and flattenEach ::
    "(Schema \<Rightarrow> Schema \<Rightarrow> Schema) \<Rightarrow> (val \<Rightarrow> val \<Rightarrow> val) \<Rightarrow> Schema \<Rightarrow> Schema list \<Rightarrow> Schema" where
  "flatten both bothDynamic output
     (Schema.Schema ap disc allOf anyOf oneOf enum format items maxLength minLength minimum
        maximum dflt nullable ex pat props required type writeOnly readOnly ref
        expandable expansionResources resourceID) =
     flattenEach both bothDynamic
       (Merge both bothDynamic output
          (Schema.Schema ap disc [] anyOf oneOf enum format items maxLength minLength minimum
             maximum dflt nullable ex pat props required type writeOnly readOnly ref
             expandable expansionResources resourceID))
       allOf"
| "flattenEach both bothDynamic output [] = output"
| "flattenEach both bothDynamic output (v # rest) =
     flattenEach both bothDynamic (flatten both bothDynamic output v) rest"

definition FlattenAllOf ::
  "(Schema \<Rightarrow> Schema \<Rightarrow> Schema) \<Rightarrow> (val \<Rightarrow> val \<Rightarrow> val) \<Rightarrow> Schema \<Rightarrow> Schema" where
  "FlattenAllOf both bothDynamic s = flatten both bothDynamic zeroSchema s"

lemma mergeProperties_distinct:
  "distinct (map fst d) \<Longrightarrow> distinct (map fst (mergeProperties both d s))"
proof (induction s arbitrary: d)
  case Nil
  then show ?case by simp
next
  case (Cons entry rest)
  obtain key sv where e: "entry = (key, sv)" by (cases entry)
  show ?case
  proof (cases "map_of d key")
    case None
    then have "key \<notin> fst ` set d" by (simp add: map_of_eq_None_iff)
    with Cons.prems have "distinct (map fst (d @ [(key, sv)]))" by simp
    from Cons.IH[OF this] show ?thesis using None e by simp
  next
    case (Some dv)
    from Cons.prems have "distinct (map fst (AList.update key (both dv sv) d))"
      by (rule distinct_update)
    from Cons.IH[OF this] show ?thesis using Some e by simp
  qed
qed

lemma mergeProperties_fresh:
  "distinct (map fst (d @ s)) \<Longrightarrow> mergeProperties both d s = d @ s"
proof (induction s arbitrary: d)
  case Nil
  then show ?case by simp
next
  case (Cons entry rest)
  obtain key sv where e: "entry = (key, sv)" by (cases entry)
  from Cons.prems e have "key \<notin> fst ` set d" by auto
  then have n: "map_of d key = None" by (simp add: map_of_eq_None_iff)
  from Cons.prems e have "distinct (map fst ((d @ [(key, sv)]) @ rest))" by simp
  from Cons.IH[OF this] show ?case using n e by simp
qed

text \<open>
  What every output of \<open>flatten\<close> satisfies: no \<open>AllOf\<close>, no slice that is empty
  without being nil, and property names that are pairwise different (as the keys of
  a map are).
\<close>

definition flat :: "Schema \<Rightarrow> bool" where
  "flat s =
     (AllOf s = [] \<and> Enum s \<noteq> Some [] \<and> Default s \<noteq> Some [] \<and> Example s \<noteq> Some [] \<and>
      distinct (map fst (case Properties s of None \<Rightarrow> [] | Some props \<Rightarrow> props)))"

lemma flat_zeroSchema: "flat zeroSchema"
  by (simp add: flat_def zeroSchema_def)

lemma mergeSlice_flat: "d \<noteq> Some [] \<Longrightarrow> mergeSlice d s \<noteq> Some []"
  by (auto simp: mergeSlice_def isEmptySlice_def split: option.splits)

lemma mergeMap_distinct:
  assumes "distinct (map fst (case d of None \<Rightarrow> [] | Some props \<Rightarrow> props))"
  shows "distinct (map fst (case mergeMap both d s of None \<Rightarrow> [] | Some props \<Rightarrow> props))"
proof (cases s)
  case None
  then show ?thesis using assms by (simp add: mergeMap_def)
next
  case (Some sprops)
  from assms have "distinct (map fst (mergeProperties both (case d of None \<Rightarrow> [] | Some props \<Rightarrow> props) sprops))"
    by (rule mergeProperties_distinct)
  then show ?thesis using Some by (simp add: mergeMap_def)
qed

lemma flat_Merge:
  assumes "flat d" and "AllOf s = []"
  shows "flat (Merge both bothDynamic d s)"
proof -
  have "AllOf (Merge both bothDynamic d s) = []"
    using assms by (simp add: Merge_def mergeList_def flat_def)
  moreover have "Enum (Merge both bothDynamic d s) \<noteq> Some []"
    using assms by (simp add: Merge_def flat_def mergeSlice_flat)
  moreover have "Default (Merge both bothDynamic d s) \<noteq> Some []"
    using assms by (simp add: Merge_def flat_def mergeSlice_flat)
  moreover have "Example (Merge both bothDynamic d s) \<noteq> Some []"
    using assms by (simp add: Merge_def flat_def mergeSlice_flat)
  moreover have "distinct (map fst (case Properties (Merge both bothDynamic d s) of
      None \<Rightarrow> [] | Some props \<Rightarrow> props))"
    using assms by (simp add: Merge_def flat_def mergeMap_distinct)
  ultimately show ?thesis by (simp add: flat_def)
qed

lemma flat_flatten:
  "flat out \<Longrightarrow> flat (flatten both bothDynamic out s)"
  "flat out \<Longrightarrow> flat (flattenEach both bothDynamic out ss)"
proof (induction both bothDynamic out s and both bothDynamic out ss
    rule: flatten_flattenEach.induct)
  case (1 both bothDynamic out ap disc allOf anyOf oneOf enum format items maxLength minLength
      minimum maximum dflt nullable ex pat props required type writeOnly readOnly ref
      expandable expansionResources resourceID)
  have "flat (Merge both bothDynamic out
          (Schema.Schema ap disc [] anyOf oneOf enum format items maxLength minLength minimum
             maximum dflt nullable ex pat props required type writeOnly readOnly ref
             expandable expansionResources resourceID))"
    using "1.prems" by (rule flat_Merge) simp
  from "1.IH"[OF this] show ?case by simp
next
  case (2 both bothDynamic out)
  then show ?case by simp
next
  case (3 both bothDynamic out v rest)
  then show ?case by simp
qed

lemma flatten_no_allOf:
  "AllOf s = [] \<Longrightarrow> flatten both bothDynamic output s = Merge both bothDynamic output s"
  by (cases s) simp

lemma Merge_zeroSchema:
  assumes "flat s"
  shows "Merge both bothDynamic zeroSchema s = s"
proof (cases s)
  case (Schema ap disc allOf anyOf oneOf enum format items maxLength minLength
      minimum maximum dflt nullable ex pat props required type writeOnly readOnly ref
      expandable expansionResources resourceID)
  from assms Schema have p: "mergeMap both None props = props"
    by (cases props) (simp_all add: mergeMap_def flat_def mergeProperties_fresh[of "[]", simplified])
  from assms Schema have e: "mergeSlice None enum = enum" "mergeSlice None dflt = dflt"
      "mergeSlice None ex = ex"
    by (auto simp: mergeSlice_def isEmptySlice_def flat_def split: option.splits)
  from assms Schema have a: "allOf = []" by (simp add: flat_def)
  have d: "mergeDynamic bothDynamic VNil ap = ap" "mergeDynamic bothDynamic VNil disc = disc"
    by (simp_all add: mergeDynamic_def)
  have l: "\<And>xs :: Schema list. mergeList [] xs = xs" "\<And>xs :: string. mergeList [] xs = xs"
    "\<And>xs :: string list. mergeList [] xs = xs"
    by (simp_all add: mergeList_def)
  have q: "\<And>f x. mergePointer f None x = x"
    by (simp add: mergePointer_def split: option.splits)
  have i: "\<And>n. mergeInt 0 n = n" "\<And>b. mergeBool False b = b"
    by (simp_all add: mergeInt_def mergeBool_def)
  show ?thesis
    unfolding Schema Merge_def zeroSchema_def
    by (simp add: p e a d l q i)
qed

text \<open>
  Claim C9. \<open>FlattenAllOf\<close> is idempotent: flattening a schema that is itself the result
  of a flattening gives that schema back. The output of a flattening has no \<open>AllOf\<close>
  left, so flattening it is one merge into the zero schema, and that merge copies
  every field: the output has no slice that is empty without being nil, and its
  property names are the keys of a map. The statement holds for every schema and
  for every behaviour of the merge where both sides hold a schema or a dynamic
  value.
\<close>

theorem FlattenAllOf_idempotent:
  "FlattenAllOf both bothDynamic (FlattenAllOf both bothDynamic s) = FlattenAllOf both bothDynamic s"
proof -
  let ?F = "FlattenAllOf both bothDynamic s"
  have f: "flat ?F"
    unfolding FlattenAllOf_def by (rule flat_flatten(1)) (rule flat_zeroSchema)
  then have "AllOf ?F = []" by (simp add: flat_def)
  then have "FlattenAllOf both bothDynamic ?F = Merge both bothDynamic zeroSchema ?F"
    unfolding FlattenAllOf_def by (rule flatten_no_allOf)
  also have "\<dots> = ?F" using f by (rule Merge_zeroSchema)
  finally show ?thesis .
qed

text \<open>
  An example: a schema made of two \<open>allOf\<close> members, the second with an \<open>allOf\<close> of its
  own. Both members declare the property \<open>id\<close>; the merge here keeps the one it met
  first. The \<open>required\<close> list of the second member is not added to that of the first,
  which is set already.
\<close>

definition integerSchema :: Schema where
  "integerSchema =
     Schema.Schema VNil VNil [] [] [] None [] None 0 0 0 0 None False None [] None [] TypeInteger
       False False [] None None []"

definition baseMember :: Schema where
  "baseMember =
     Schema.Schema VNil VNil [] [] [] None [] None 0 0 0 0 None False None []
       (Some [(''id'', stringSchema)]) [''id''] TypeObject False False [] None None []"

definition formatMember :: Schema where
  "formatMember =
     Schema.Schema VNil VNil [] [] [] None ''uuid'' None 0 0 0 0 None False None [] None [] []
       False False [] None None []"

definition extraMember :: Schema where
  "extraMember =
     Schema.Schema VNil VNil [formatMember] [] [] (Some []) [] None 0 0 0 0 None True None []
       (Some [(''name'', stringSchema), (''id'', integerSchema)]) [''name''] [] False False []
       None None []"

definition composedSchema :: Schema where
  "composedSchema =
     Schema.Schema (VBool False) VNil [baseMember, extraMember] [] [] None [] None 0 0 0 0 None
       False None [] None [] [] False False [] None None ''pet''"

definition flattenedSchema :: Schema where
  "flattenedSchema =
     Schema.Schema (VBool False) VNil [] [] [] None ''uuid'' None 0 0 0 0 None True None []
       (Some [(''id'', stringSchema), (''name'', stringSchema)]) [''id''] TypeObject False False
       [] None None ''pet''"

theorem FlattenAllOf_idempotent_witness:
  "FlattenAllOf (\<lambda>d s. d) (\<lambda>d s. d) composedSchema = flattenedSchema \<and>
   FlattenAllOf (\<lambda>d s. d) (\<lambda>d s. d) flattenedSchema = flattenedSchema"
proof -
  have e: "FlattenAllOf (\<lambda>d s. d) (\<lambda>d s. d) composedSchema = flattenedSchema"
    by code_simp
  show ?thesis
    using FlattenAllOf_idempotent[of "\<lambda>d s. d" "\<lambda>d s. d" composedSchema] e by simp
qed

end

